theory Spec2Isabelle
  imports Complex_Main
begin

section \<open>The free-list arena (MemoryAllocator.h, MemoryAllocator.cpp)\<close>

text \<open>
  Values of type \<open>size_t\<close> are natural numbers. Every sum the arena forms (an address
  plus a size, two sizes of neighbouring blocks, the running total of the free sizes) is
  bounded by \<open>totalMemorySize\<close> in every state the public operations can produce
  (lemma \<open>reachable_bounded\<close> below), so no addition of the arena
  wraps around and the natural numbers compute what the 64-bit code computes.
  \<open>SIZE_MAX\<close> is the largest value of a 64-bit \<open>size_t\<close>.
\<close>

definition SIZE_MAX :: nat where
  "SIZE_MAX = 2 ^ 64 - 1"

datatype AllocationStrategy = FIRST_FIT | BEST_FIT | WORST_FIT

text \<open>\<open>struct MemoryBlock\<close>; the field \<open>size\<close> is called \<open>bsize\<close> here.\<close>

record MemoryBlock =
  address :: nat
  bsize :: nat
  isFree :: bool

text \<open>
  The exceptions of the code, as values. \<open>UndefinedBehaviour\<close> stands for an operation
  whose behaviour the language leaves undefined (reading \<open>front()\<close> of an empty vector).
\<close>

datatype error =
  AllocationFailedException string
  | InvalidAddressException string
  | UndefinedBehaviour string

abbreviation ZeroSize :: error where
  "ZeroSize \<equiv> AllocationFailedException ''Cannot allocate zero bytes''"

abbreviation NoFit :: error where
  "NoFit \<equiv> AllocationFailedException ''No suitable memory block found''"

abbreviation InvalidAddress :: error where
  "InvalidAddress \<equiv> InvalidAddressException ''Invalid address for deallocation''"

text \<open>
  \<open>class MemoryAllocator\<close>. \<open>memoryBlocks\<close> is the \<open>std::list\<close>, in list order.
  \<open>addressMap\<close> maps an address to an iterator into that list. A list iterator stays
  valid while its node lives, the \<open>address\<close> field of a node is written once, when the
  node is built, and the code stores an iterator only under the address of the node it
  points to; so an iterator is represented by the address of its node, and following it
  (\<open>it->second->\<close>) reaches the first node of the list with that address. In every
  reachable state the addresses of the nodes are pairwise different and the keys of the
  map are exactly these addresses (\<open>reachable_arena_inv\<close>). An iterator returned by
  \<open>findSuitableBlock\<close> is used at once, before the list changes in front of it, and is
  represented by its position in the list, \<open>None\<close> for \<open>end()\<close>.
\<close>

record MemoryAllocator =
  memoryBlocks :: "MemoryBlock list"
  addressMap :: "nat \<rightharpoonup> nat"
  totalMemorySize :: nat
  strategy :: AllocationStrategy

definition MemoryAllocator_init :: "nat \<Rightarrow> AllocationStrategy \<Rightarrow> MemoryAllocator" where
  "MemoryAllocator_init sz allocationStrategy =
     \<lparr>memoryBlocks = [\<lparr>address = 0, bsize = sz, isFree = True\<rparr>],
      addressMap = [0 \<mapsto> 0],
      totalMemorySize = sz,
      strategy = allocationStrategy\<rparr>"

subsection \<open>findSuitableBlock\<close>

text \<open>\<open>std::find_if\<close> over the list; \<open>i\<close> is the position of the head of the rest.\<close>

fun first_fit_loop :: "nat \<Rightarrow> MemoryBlock list \<Rightarrow> nat \<Rightarrow> nat option" where
  "first_fit_loop n [] i = None"
| "first_fit_loop n (b # bs) i =
     (if isFree b \<and> n \<le> bsize b then Some i else first_fit_loop n bs (Suc i))"

fun best_fit_loop ::
  "nat \<Rightarrow> MemoryBlock list \<Rightarrow> nat \<Rightarrow> nat option \<Rightarrow> nat \<Rightarrow> nat option" where
  "best_fit_loop n [] i bestFit smallestDifference = bestFit"
| "best_fit_loop n (b # bs) i bestFit smallestDifference =
     (if isFree b \<and> n \<le> bsize b
      then (let difference = bsize b - n in
            if difference < smallestDifference
            then best_fit_loop n bs (Suc i) (Some i) difference
            else best_fit_loop n bs (Suc i) bestFit smallestDifference)
      else best_fit_loop n bs (Suc i) bestFit smallestDifference)"

fun worst_fit_loop ::
  "nat \<Rightarrow> MemoryBlock list \<Rightarrow> nat \<Rightarrow> nat option \<Rightarrow> nat \<Rightarrow> nat option" where
  "worst_fit_loop n [] i worstFit largestDifference = worstFit"
| "worst_fit_loop n (b # bs) i worstFit largestDifference =
     (if isFree b \<and> n \<le> bsize b
      then (let difference = bsize b - n in
            if difference > largestDifference
            then worst_fit_loop n bs (Suc i) (Some i) difference
            else worst_fit_loop n bs (Suc i) worstFit largestDifference)
      else worst_fit_loop n bs (Suc i) worstFit largestDifference)"

definition findSuitableBlock :: "nat \<Rightarrow> MemoryAllocator \<Rightarrow> nat option" where
  "findSuitableBlock n s =
     (case strategy s of
        FIRST_FIT \<Rightarrow> first_fit_loop n (memoryBlocks s) 0
      | BEST_FIT \<Rightarrow> best_fit_loop n (memoryBlocks s) 0 None SIZE_MAX
      | WORST_FIT \<Rightarrow> worst_fit_loop n (memoryBlocks s) 0 None 0)"

subsection \<open>splitBlock, allocate\<close>

text \<open>
  \<open>splitBlock(block, size)\<close>: the new node goes right behind \<open>block\<close>
  (\<open>insert(std::next(block), newBlock)\<close>), its address is entered in the map, and the
  block shrinks to \<open>size\<close>.
\<close>

definition splitBlock :: "nat \<Rightarrow> nat \<Rightarrow> MemoryAllocator \<Rightarrow> MemoryAllocator" where
  "splitBlock i n s =
     (let blocks = memoryBlocks s;
          block = blocks ! i;
          remainingSize = bsize block - n
      in if remainingSize > 0
         then (let newBlock = \<lparr>address = address block + n, bsize = remainingSize, isFree = True\<rparr>
               in s\<lparr>memoryBlocks :=
                       take i blocks @ block\<lparr>bsize := n\<rparr> # newBlock # drop (Suc i) blocks,
                     addressMap := (addressMap s)(address newBlock \<mapsto> address newBlock)\<rparr>)
         else s)"

text \<open>
  \<open>allocate\<close> returns the outcome together with the state the object is left in; an
  exception is thrown before anything is written.
\<close>

definition allocate :: "nat \<Rightarrow> MemoryAllocator \<Rightarrow> (error + nat) \<times> MemoryAllocator" where
  "allocate n s =
     (if n = 0 then (Inl ZeroSize, s)
      else (case findSuitableBlock n s of
              None \<Rightarrow> (Inl NoFit, s)
            | Some i \<Rightarrow>
                (let allocatedAddress = address (memoryBlocks s ! i);
                     s1 = (if bsize (memoryBlocks s ! i) > n then splitBlock i n s else s);
                     s2 = s1\<lparr>memoryBlocks :=
                               (memoryBlocks s1)[i := (memoryBlocks s1 ! i)\<lparr>isFree := False\<rparr>]\<rparr>
                 in (Inr allocatedAddress, s2))))"

subsection \<open>mergeFreeBlocks, deallocate\<close>

text \<open>
  The loop of \<open>mergeFreeBlocks\<close>: the head of the list is \<open>*it\<close>. When it and its
  successor are both free the successor is swallowed and \<open>it\<close> stays; otherwise \<open>it\<close>
  moves on and the head is final.
\<close>

definition map_erase :: "nat \<Rightarrow> (nat \<rightharpoonup> nat) \<Rightarrow> (nat \<rightharpoonup> nat)" where
  "map_erase k m = m(k := None)"

fun merge_loop ::
  "MemoryBlock list \<Rightarrow> (nat \<rightharpoonup> nat) \<Rightarrow> MemoryBlock list \<times> (nat \<rightharpoonup> nat)" where
  "merge_loop (b # c # rest) m =
     (if isFree b \<and> isFree c
      then merge_loop (b\<lparr>bsize := bsize b + bsize c\<rparr> # rest) (map_erase (address c) m)
      else (case merge_loop (c # rest) m of (bs, m') \<Rightarrow> (b # bs, m')))"
| "merge_loop bs m = (bs, m)"

definition mergeFreeBlocks :: "MemoryAllocator \<Rightarrow> MemoryAllocator" where
  "mergeFreeBlocks s =
     (case merge_loop (memoryBlocks s) (addressMap s) of
        (bs, m) \<Rightarrow> s\<lparr>memoryBlocks := bs, addressMap := m\<rparr>)"

text \<open>\<open>it->second->isFree = true\<close>: the node the stored iterator points to.\<close>

fun mark_free :: "nat \<Rightarrow> MemoryBlock list \<Rightarrow> MemoryBlock list" where
  "mark_free node [] = []"
| "mark_free node (b # bs) =
     (if address b = node then b\<lparr>isFree := True\<rparr> # bs else b # mark_free node bs)"

definition deallocate :: "nat \<Rightarrow> MemoryAllocator \<Rightarrow> (error + unit) \<times> MemoryAllocator" where
  "deallocate a s =
     (case addressMap s a of
        None \<Rightarrow> (Inl InvalidAddress, s)
      | Some node \<Rightarrow>
          (Inr (), mergeFreeBlocks (s\<lparr>memoryBlocks := mark_free node (memoryBlocks s)\<rparr>)))"

definition setAllocationStrategy :: "AllocationStrategy \<Rightarrow> MemoryAllocator \<Rightarrow> MemoryAllocator" where
  "setAllocationStrategy newStrategy s = s\<lparr>strategy := newStrategy\<rparr>"

subsection \<open>Queries\<close>

fun largest_loop :: "MemoryBlock list \<Rightarrow> nat \<Rightarrow> nat" where
  "largest_loop [] largest = largest"
| "largest_loop (block # bs) largest =
     (if isFree block \<and> bsize block > largest then largest_loop bs (bsize block)
      else largest_loop bs largest)"

definition getLargestFreeBlock :: "MemoryAllocator \<Rightarrow> nat" where
  "getLargestFreeBlock s = largest_loop (memoryBlocks s) 0"

fun total_loop :: "MemoryBlock list \<Rightarrow> nat \<Rightarrow> nat" where
  "total_loop [] acc = acc"
| "total_loop (block # bs) acc =
     (if isFree block then total_loop bs (acc + bsize block) else total_loop bs acc)"

definition getTotalFreeMemory :: "MemoryAllocator \<Rightarrow> nat" where
  "getTotalFreeMemory s = total_loop (memoryBlocks s) 0"

text \<open>
  A \<open>double\<close> is a real number, or \<open>None\<close> when it is not a finite number: a division
  by zero gives an infinity or a NaN, never a finite value.
\<close>

definition double_div :: "real \<Rightarrow> real \<Rightarrow> real option" where
  "double_div x y = (if y = 0 then None else Some (x / y))"

definition getFragmentationRatio :: "MemoryAllocator \<Rightarrow> real option" where
  "getFragmentationRatio s =
     (let totalFreeMemory = getTotalFreeMemory s;
          largestFreeBlock = getLargestFreeBlock s
      in if totalFreeMemory = 0 then Some 0
         else (case double_div (real largestFreeBlock) (real totalFreeMemory) of
                 None \<Rightarrow> None
               | Some q \<Rightarrow> Some (1 - q)))"

subsection \<open>Invariants of the arena and its reachable states\<close>

text \<open>
  The block invariants of the data model: the blocks are laid out without gap or overlap
  from address 0 (\<open>chain\<close>), their sizes add up to the total, their addresses strictly
  increase, no two neighbours are both free, and the lookup holds exactly the addresses
  of the blocks of the list.
\<close>

fun no_adjacent_free :: "MemoryBlock list \<Rightarrow> bool" where
  "no_adjacent_free (b # c # rest) = (\<not> (isFree b \<and> isFree c) \<and> no_adjacent_free (c # rest))"
| "no_adjacent_free bs = True"

fun chain :: "nat \<Rightarrow> MemoryBlock list \<Rightarrow> bool" where
  "chain a [] = True"
| "chain a (b # bs) = (address b = a \<and> chain (a + bsize b) bs)"

definition keys_of :: "nat set \<Rightarrow> (nat \<rightharpoonup> nat)" where
  "keys_of A = (\<lambda>a. if a \<in> A then Some a else None)"

definition arena_inv :: "MemoryAllocator \<Rightarrow> bool" where
  "arena_inv s =
     (chain 0 (memoryBlocks s) \<and>
      sum_list (map bsize (memoryBlocks s)) = totalMemorySize s \<and>
      sorted_wrt (<) (map address (memoryBlocks s)) \<and>
      no_adjacent_free (memoryBlocks s) \<and>
      addressMap s = keys_of (address ` set (memoryBlocks s)))"

text \<open>A block is suitable for a request of \<open>n\<close> bytes: the test of all three policies.\<close>

definition fits :: "nat \<Rightarrow> MemoryBlock \<Rightarrow> bool" where
  "fits n b = (isFree b \<and> n \<le> bsize b)"

text \<open>
  What the WORST\_FIT search returns on the block list \<open>xs\<close>: no block when every
  suitable block fits exactly, and otherwise the first of the largest suitable blocks.
\<close>

definition worst_fit_result :: "nat \<Rightarrow> MemoryBlock list \<Rightarrow> nat option \<Rightarrow> bool" where
  "worst_fit_result n xs r =
     (case r of
        None \<Rightarrow> (\<forall>b\<in>set xs. fits n b \<longrightarrow> bsize b = n)
      | Some j \<Rightarrow>
          j < length xs \<and> fits n (xs ! j) \<and> n < bsize (xs ! j) \<and>
          (\<forall>k<length xs. fits n (xs ! k) \<longrightarrow>
             bsize (xs ! k) \<le> bsize (xs ! j) \<and> (bsize (xs ! k) = bsize (xs ! j) \<longrightarrow> j \<le> k)))"

text \<open>The list that \<open>merge_loop\<close> returns, without the map.\<close>

fun coalesce :: "MemoryBlock list \<Rightarrow> MemoryBlock list" where
  "coalesce (b # c # rest) =
     (if isFree b \<and> isFree c then coalesce (b\<lparr>bsize := bsize b + bsize c\<rparr> # rest)
      else b # coalesce (c # rest))"
| "coalesce bs = bs"

text \<open>
  The states of the arena that the constructor and the public operations produce; the
  arguments are values of \<open>size_t\<close>. The queries return a number and leave the state
  as it is.
\<close>

inductive reachable :: "MemoryAllocator \<Rightarrow> bool" where
  reach_init: "sz \<le> SIZE_MAX \<Longrightarrow> reachable (MemoryAllocator_init sz st)"
| reach_allocate: "reachable s \<Longrightarrow> n \<le> SIZE_MAX \<Longrightarrow> reachable (snd (allocate n s))"
| reach_deallocate: "reachable s \<Longrightarrow> a \<le> SIZE_MAX \<Longrightarrow> reachable (snd (deallocate a s))"
| reach_strategy: "reachable s \<Longrightarrow> reachable (setAllocationStrategy st s)"

text \<open>Comparison of two \<open>double\<close> values; false when one of them is not a finite number.\<close>

definition double_le :: "real option \<Rightarrow> real option \<Rightarrow> bool" where
  "double_le x y =
     (case x of None \<Rightarrow> False
      | Some a \<Rightarrow> (case y of None \<Rightarrow> False | Some b \<Rightarrow> a \<le> b))"

text \<open>
  The arena of 1024 bytes after \<open>allocate(100)\<close>, \<open>allocate(200)\<close> and
  \<open>deallocate(0)\<close> under FIRST\_FIT: the block at address 0 has been freed.
\<close>

definition freed_once :: MemoryAllocator where
  "freed_once =
     snd (deallocate 0 (snd (allocate 200 (snd (allocate 100
       (MemoryAllocator_init 1024 FIRST_FIT))))))"

section \<open>The profiler (MemoryProfiler.h, MemoryProfiler.cpp)\<close>

text \<open>
  Outside the arena the code adds and multiplies values of \<open>size_t\<close> that nothing
  bounds; there the wrap-around of the 64-bit type is written out with \<open>wrap\<close>.

  A \<open>steady_clock::time_point\<close> is the integer count of clock ticks, taken as
  nanoseconds, since the epoch of the clock; the default-constructed time point, which the
  code uses for "never deallocated", is 0. Every operation that reads the clock takes the
  reading as its argument \<open>now\<close>. \<open>duration_cast\<close> truncates towards zero.

  A \<open>double\<close> is a real number (rounding is left out); where the code can divide by
  zero the result is a \<open>real option\<close> as for \<open>double_div\<close>, and a comparison with a
  value that is not a number is false.
\<close>

definition wrap :: "nat \<Rightarrow> nat" where
  "wrap x = x mod 2 ^ 64"

definition trunc_div :: "int \<Rightarrow> int \<Rightarrow> int" where
  "trunc_div d k = (if 0 \<le> d then d div k else - ((- d) div k))"

definition to_milliseconds :: "int \<Rightarrow> int" where
  "to_milliseconds d = trunc_div d 1000000"

definition to_microseconds :: "int \<Rightarrow> int" where
  "to_microseconds d = trunc_div d 1000"

definition double_less :: "real option \<Rightarrow> real \<Rightarrow> bool" where
  "double_less x c = (case x of None \<Rightarrow> False | Some v \<Rightarrow> v < c)"

definition double_greater :: "real option \<Rightarrow> real \<Rightarrow> bool" where
  "double_greater x c = (case x of None \<Rightarrow> False | Some v \<Rightarrow> v > c)"

text \<open>
  A \<open>std::map\<close> with keys of type \<open>size_t\<close> is an association list kept in increasing
  key order, the order in which the code iterates over it.
\<close>

fun map_put :: "nat \<Rightarrow> 'v \<Rightarrow> (nat \<times> 'v) list \<Rightarrow> (nat \<times> 'v) list" where
  "map_put k v [] = [(k, v)]"
| "map_put k v ((k', v') # kvs) =
     (if k < k' then (k, v) # (k', v') # kvs
      else if k = k' then (k, v) # kvs
      else (k', v') # map_put k v kvs)"

text \<open>\<open>struct AllocationRecord\<close>; \<open>size\<close> and \<open>address\<close> carry the prefix \<open>rec_\<close>.\<close>

record AllocationRecord =
  rec_size :: nat
  rec_address :: nat
  allocationTime :: int
  deallocationTime :: int
  isActive :: bool
  poolId :: nat

text \<open>
  \<open>class MemoryProfiler\<close>. The deque \<open>allocationHistory\<close> is a list, oldest record
  first (\<open>push_back\<close> appends, \<open>pop_front\<close> drops the head). \<open>strategyMetrics\<close> is
  never written (\<open>updateStrategyMetrics\<close> has no caller), so it stays empty and is left
  out together with \<open>strategyEfficiency\<close>. The pointer to the allocator is only used to
  read the fragmentation ratio; the arena is passed where it is read.
\<close>

record MemoryProfiler =
  allocationHistory :: "AllocationRecord list"
  lifetimeDistribution :: "(nat \<times> real list) list"
  sizeFrequency :: "(nat \<times> nat) list"

definition MemoryProfiler_init :: MemoryProfiler where
  "MemoryProfiler_init =
     \<lparr>allocationHistory = [], lifetimeDistribution = [], sizeFrequency = []\<rparr>"

definition updateSizeFrequency :: "nat \<Rightarrow> MemoryProfiler \<Rightarrow> MemoryProfiler" where
  "updateSizeFrequency sz p =
     p\<lparr>sizeFrequency :=
         map_put sz (case map_of (sizeFrequency p) sz of None \<Rightarrow> 1 | Some n \<Rightarrow> wrap (n + 1))
           (sizeFrequency p)\<rparr>"

definition MemoryProfiler_recordAllocation ::
  "int \<Rightarrow> nat \<Rightarrow> nat \<Rightarrow> nat \<Rightarrow> MemoryProfiler \<Rightarrow> MemoryProfiler" where
  "MemoryProfiler_recordAllocation now sz addr pool p =
     (let record = \<lparr>rec_size = sz, rec_address = addr, allocationTime = now,
                     deallocationTime = 0, isActive = True, poolId = pool\<rparr>;
          p1 = updateSizeFrequency sz (p\<lparr>allocationHistory := allocationHistory p @ [record]\<rparr>)
      in if length (allocationHistory p1) > 10000
         then p1\<lparr>allocationHistory := tl (allocationHistory p1)\<rparr>
         else p1)"

definition updateLifetimeStats :: "AllocationRecord \<Rightarrow> MemoryProfiler \<Rightarrow> MemoryProfiler" where
  "updateLifetimeStats record p =
     (let duration = to_milliseconds (deallocationTime record - allocationTime record)
      in p\<lparr>lifetimeDistribution :=
             map_put (rec_size record)
               ((case map_of (lifetimeDistribution p) (rec_size record) of
                   None \<Rightarrow> [] | Some ls \<Rightarrow> ls) @ [real_of_int duration])
               (lifetimeDistribution p)\<rparr>)"

text \<open>
  The loop of \<open>recordDeallocation\<close> runs over the history from its front and stops at
  the first record with the address that is active. It returns the history and the
  record it changed, if any, for \<open>updateLifetimeStats\<close>.
\<close>

fun recordDeallocation_loop ::
  "int \<Rightarrow> nat \<Rightarrow> AllocationRecord list \<Rightarrow> AllocationRecord list \<times> AllocationRecord option" where
  "recordDeallocation_loop now addr [] = ([], None)"
| "recordDeallocation_loop now addr (record # rs) =
     (if rec_address record = addr \<and> isActive record
      then (let record' = record\<lparr>isActive := False, deallocationTime := now\<rparr>
            in (record' # rs, Some record'))
      else (case recordDeallocation_loop now addr rs of
              (rs', changed) \<Rightarrow> (record # rs', changed)))"

definition MemoryProfiler_recordDeallocation ::
  "int \<Rightarrow> nat \<Rightarrow> MemoryProfiler \<Rightarrow> MemoryProfiler" where
  "MemoryProfiler_recordDeallocation now addr p =
     (case recordDeallocation_loop now addr (allocationHistory p) of
        (h, None) \<Rightarrow> p\<lparr>allocationHistory := h\<rparr>
      | (h, Some record) \<Rightarrow> updateLifetimeStats record (p\<lparr>allocationHistory := h\<rparr>))"

text \<open>
  The states of the profiler. The constructor makes the empty profiler, and
  \<open>recordAllocation\<close> and \<open>recordDeallocation\<close> are the only members that write
  to it; all its fields are private. A reading of the steady clock lies after the epoch
  of the clock.
\<close>

inductive profiler_reachable :: "MemoryProfiler \<Rightarrow> bool" where
  prof_init: "profiler_reachable MemoryProfiler_init"
| prof_allocation:
    "profiler_reachable p \<Longrightarrow> 0 < now \<Longrightarrow>
       profiler_reachable (MemoryProfiler_recordAllocation now sz addr pool p)"
| prof_deallocation:
    "profiler_reachable p \<Longrightarrow> 0 < now \<Longrightarrow>
       profiler_reachable (MemoryProfiler_recordDeallocation now addr p)"

subsection \<open>Pattern analysis and prediction\<close>

record AllocationPattern =
  commonSizes :: "nat list"
  averageLifetime :: real
  sizeDistribution :: "(nat \<times> real) list"
  hotSpots :: "(nat \<times> nat) list"

text \<open>
  \<open>std::sort\<close> by decreasing count. The order it gives to entries of equal count is
  not specified; here they keep their key order.
\<close>

definition sort_by_count :: "(nat \<times> nat) list \<Rightarrow> (nat \<times> nat) list" where
  "sort_by_count kvs = sort_key (\<lambda>p. - int (snd p)) kvs"

fun count_regions :: "AllocationRecord list \<Rightarrow> (nat \<times> nat) list \<Rightarrow> (nat \<times> nat) list" where
  "count_regions [] addressFrequency = addressFrequency"
| "count_regions (record # rs) addressFrequency =
     (let region = rec_address record div 4096
      in count_regions rs
           (map_put region
              (case map_of addressFrequency region of None \<Rightarrow> 1 | Some n \<Rightarrow> wrap (n + 1))
              addressFrequency))"

definition identifyHotSpots :: "AllocationRecord list \<Rightarrow> (nat \<times> nat) list" where
  "identifyHotSpots records = take 10 (sort_by_count (count_regions records []))"

definition analyzePatterns :: "MemoryProfiler \<Rightarrow> AllocationPattern" where
  "analyzePatterns p =
     (let sizeFreqVec = sort_by_count (sizeFrequency p);
          lifetimes = concat (map snd (lifetimeDistribution p));
          totalLifetime = sum_list lifetimes;
          count = length lifetimes;
          totalAllocations = wrap (sum_list (map snd sizeFreqVec))
      in \<lparr>commonSizes = map fst (take 5 sizeFreqVec),
          averageLifetime = (if count > 0 then totalLifetime / real count else 0),
          sizeDistribution =
            map (\<lambda>(sz, freq). (sz, real freq / real totalAllocations)) (sizeFrequency p),
          hotSpots = identifyHotSpots (allocationHistory p)\<rparr>)"

text \<open>
  \<open>size - pattern.commonSizes[0]\<close> is a difference of two \<open>size_t\<close> and wraps around
  when the size is the smaller one. The loop reads \<open>commonSizes[0]\<close> only when the
  distribution is not empty, and then \<open>analyzePatterns\<close> has filled \<open>commonSizes\<close>.
\<close>

definition determineOptimalStrategy :: "AllocationPattern \<Rightarrow> AllocationStrategy" where
  "determineOptimalStrategy pattern =
     (let sizeVariance =
            sum_list (map (\<lambda>(sz, freq).
                        (real (wrap (sz + 2 ^ 64 - hd (commonSizes pattern)))) ^ 2 * freq)
                      (sizeDistribution pattern));
          bestFitScore1 = (if sizeVariance < 1000 then 5 / 10 else 0 :: real);
          firstFitScore1 = (if sizeVariance < 1000 then 0 else 3 / 10 :: real);
          worstFitScore = (if length (hotSpots pattern) > 5 then 4 / 10 else 0 :: real);
          firstFitScore =
            (if averageLifetime pattern < 1000 then firstFitScore1 + 4 / 10 else firstFitScore1);
          bestFitScore =
            (if averageLifetime pattern < 1000 then bestFitScore1 else bestFitScore1 + 3 / 10)
      in if firstFitScore \<ge> bestFitScore \<and> firstFitScore \<ge> worstFitScore then FIRST_FIT
         else if bestFitScore \<ge> worstFitScore then BEST_FIT
         else WORST_FIT)"

definition calculatePatternConfidence :: "MemoryProfiler \<Rightarrow> nat list \<Rightarrow> real" where
  "calculatePatternConfidence p sizes =
     (if sizes = [] then 0
      else (let totalAllocs = wrap (sum_list (map snd (sizeFrequency p)));
                commonAllocs =
                  wrap (sum_list (map (\<lambda>sz. case map_of (sizeFrequency p) sz of
                                           None \<Rightarrow> 0 | Some n \<Rightarrow> n) sizes))
            in real commonAllocs / real totalAllocs))"

text \<open>
  \<open>struct Prediction\<close>. \<open>nextLikelySize\<close> is left unset by the code when there is no
  common size: \<open>None\<close>.
\<close>

record Prediction =
  nextLikelySize :: "nat option"
  recommendedStrategy :: AllocationStrategy
  recommendedPoolSizes :: "nat list"
  confidence :: real

definition predictNextAllocation :: "MemoryProfiler \<Rightarrow> Prediction" where
  "predictNextAllocation p =
     (let pattern = analyzePatterns p
      in \<lparr>nextLikelySize =
            (case commonSizes pattern of [] \<Rightarrow> None | sz # _ \<Rightarrow> Some sz),
          recommendedStrategy = determineOptimalStrategy pattern,
          recommendedPoolSizes =
            map fst (filter (\<lambda>(sz, frequency). frequency > 1 / 10) (sizeDistribution pattern)),
          confidence = calculatePatternConfidence p (commonSizes pattern)\<rparr>)"

subsection \<open>Performance metrics\<close>

record PerformanceMetrics =
  fragmentationRatio :: "real option"
  averageAllocationTime :: real
  hitRate :: "real option"
  failedAllocations :: nat

fun inter_arrival :: "AllocationRecord list \<Rightarrow> real list" where
  "inter_arrival (r1 # r2 # rs) =
     real_of_int (to_microseconds (allocationTime r2 - allocationTime r1)) #
     inter_arrival (r2 # rs)"
| "inter_arrival rs = []"

text \<open>A record counts as a successful allocation when it is active or has a deallocation time.\<close>

definition successful_record :: "AllocationRecord \<Rightarrow> bool" where
  "successful_record record = (isActive record \<or> deallocationTime record \<noteq> 0)"

definition getPerformanceMetrics :: "MemoryProfiler \<Rightarrow> MemoryAllocator \<Rightarrow> PerformanceMetrics" where
  "getPerformanceMetrics p allocator =
     (let times = inter_arrival (allocationHistory p);
          successful = length (filter successful_record (allocationHistory p))
      in \<lparr>fragmentationRatio = getFragmentationRatio allocator,
          averageAllocationTime =
            (if times = [] then 0 else sum_list times / real (length times)),
          hitRate = double_div (real successful) (real (length (allocationHistory p))),
          failedAllocations = length (allocationHistory p) - successful\<rparr>)"

text \<open>
  \<open>shouldCreatePoolForSize\<close> multiplies the share by the length of the history and
  truncates. Here the product is the exact one; the product of the two \<open>double\<close>
  values can fall just below a whole number that the exact product reaches.
\<close>

definition shouldCreatePoolForSize :: "MemoryProfiler \<Rightarrow> nat \<Rightarrow> nat \<Rightarrow> bool" where
  "shouldCreatePoolForSize p sz threshold =
     (let pattern = analyzePatterns p;
          totalAllocations = length (allocationHistory p)
      in case map_of (sizeDistribution pattern) sz of
           Some share \<Rightarrow> nat \<lfloor>share * real totalAllocations\<rfloor> \<ge> threshold
         | None \<Rightarrow> False)"

section \<open>The leak tracker (MemoryLeakDetector.h, MemoryLeakDetector.cpp)\<close>

text \<open>\<open>struct AllocationInfo\<close>; \<open>size\<close> and \<open>allocationTime\<close> carry the prefix \<open>info_\<close>.\<close>

record AllocationInfo =
  info_size :: nat
  info_allocationTime :: int
  callStack :: string
  lineNumber :: int
  fileName :: string

text \<open>
  The singleton. \<open>untracked\<close> collects the addresses for which \<open>recordDeallocation\<close>
  wrote its warning to the error stream.
\<close>

record MemoryLeakDetector =
  activeAllocations :: "nat \<rightharpoonup> AllocationInfo"
  leakHistory :: "(nat \<times> AllocationInfo) list"
  untracked :: "nat list"

definition MemoryLeakDetector_init :: MemoryLeakDetector where
  "MemoryLeakDetector_init = \<lparr>activeAllocations = Map.empty, leakHistory = [], untracked = []\<rparr>"

definition captureCallStack :: string where
  "captureCallStack = ''Call stack capture not implemented'' @ [CHR 0x0A]"

definition MemoryLeakDetector_recordAllocation ::
  "int \<Rightarrow> nat \<Rightarrow> nat \<Rightarrow> string \<Rightarrow> int \<Rightarrow> MemoryLeakDetector \<Rightarrow> MemoryLeakDetector" where
  "MemoryLeakDetector_recordAllocation now addr sz file line d =
     (let info = \<lparr>info_size = sz, info_allocationTime = now, callStack = captureCallStack,
                   lineNumber = line, fileName = file\<rparr>
      in d\<lparr>activeAllocations := (activeAllocations d)(addr \<mapsto> info),
           leakHistory := leakHistory d @ [(addr, info)]\<rparr>)"

definition MemoryLeakDetector_recordDeallocation ::
  "nat \<Rightarrow> MemoryLeakDetector \<Rightarrow> MemoryLeakDetector" where
  "MemoryLeakDetector_recordDeallocation addr d =
     (case activeAllocations d addr of
        Some info \<Rightarrow> d\<lparr>activeAllocations := (activeAllocations d)(addr := None)\<rparr>
      | None \<Rightarrow> d\<lparr>untracked := untracked d @ [addr]\<rparr>)"

section \<open>The adaptive controller (AdaptiveMemoryAllocator.h, AdaptiveMemoryAllocator.cpp)\<close>

record MemoryPool =
  blockSize :: nat
  freeBlocks :: "nat list"
  totalBlocks :: nat
  usedBlocks :: nat

record AdaptiveParameters =
  fragmentationThreshold :: real
  poolCreationThreshold :: nat
  adaptationInterval :: nat
  operationsSinceLastAdaptation :: nat

text \<open>
  \<open>class AdaptiveMemoryAllocator\<close>. \<open>arena\<close> is the base-class part of the object,
  on which \<open>MemoryAllocator::allocate\<close> and \<open>MemoryAllocator::deallocate\<close> work.
  \<open>leakDetector\<close> is the state of the process-wide \<open>MemoryLeakDetector\<close> singleton,
  which the macros \<open>RECORD_ALLOCATION\<close> and \<open>RECORD_DEALLOCATION\<close> update.
\<close>

record AdaptiveMemoryAllocator =
  arena :: MemoryAllocator
  profiler :: MemoryProfiler
  adaptiveMode :: bool
  memoryPools :: "MemoryPool list"
  params :: AdaptiveParameters
  leakDetector :: MemoryLeakDetector

definition AdaptiveMemoryAllocator_init ::
  "nat \<Rightarrow> MemoryLeakDetector \<Rightarrow> AdaptiveMemoryAllocator" where
  "AdaptiveMemoryAllocator_init totalSize detector =
     \<lparr>arena = MemoryAllocator_init totalSize FIRST_FIT,
      profiler = MemoryProfiler_init,
      adaptiveMode = True,
      memoryPools = [],
      params = \<lparr>fragmentationThreshold = 3 / 10, poolCreationThreshold = 100,
                adaptationInterval = 1000, operationsSinceLastAdaptation = 0\<rparr>,
      leakDetector = detector\<rparr>"

subsection \<open>Pools\<close>

text \<open>
  The loop of \<open>allocateFromPool\<close>: the first pool whose slots are large enough and
  that has a free slot gives its last free slot. The result 0 means "no suitable pool".
\<close>

fun allocateFromPool_loop :: "nat \<Rightarrow> MemoryPool list \<Rightarrow> nat \<times> MemoryPool list" where
  "allocateFromPool_loop sz [] = (0, [])"
| "allocateFromPool_loop sz (pool # pools) =
     (if blockSize pool \<ge> sz \<and> freeBlocks pool \<noteq> []
      then (last (freeBlocks pool),
            pool\<lparr>freeBlocks := butlast (freeBlocks pool),
                 usedBlocks := wrap (usedBlocks pool + 1)\<rparr> # pools)
      else (case allocateFromPool_loop sz pools of (addr, pools') \<Rightarrow> (addr, pool # pools')))"

definition allocateFromPool ::
  "nat \<Rightarrow> AdaptiveMemoryAllocator \<Rightarrow> nat \<times> AdaptiveMemoryAllocator" where
  "allocateFromPool sz c =
     (case allocateFromPool_loop sz (memoryPools c) of
        (addr, pools) \<Rightarrow> (addr, c\<lparr>memoryPools := pools\<rparr>))"

text \<open>
  \<open>createMemoryPool\<close>. An exception of \<open>MemoryAllocator::allocate\<close> leaves the
  function; a base address 0 is taken for a failure and the function returns with the
  arena block allocated and no pool made.
\<close>

definition createMemoryPool ::
  "nat \<Rightarrow> nat \<Rightarrow> AdaptiveMemoryAllocator \<Rightarrow> (error + unit) \<times> AdaptiveMemoryAllocator" where
  "createMemoryPool blockSize' blockCount c =
     (let totalSize = wrap (blockSize' * blockCount)
      in case allocate totalSize (arena c) of
           (Inl e, a') \<Rightarrow> (Inl e, c\<lparr>arena := a'\<rparr>)
         | (Inr baseAddress, a') \<Rightarrow>
             if baseAddress = 0 then (Inr (), c\<lparr>arena := a'\<rparr>)
             else (let newPool =
                         \<lparr>blockSize = blockSize',
                          freeBlocks = map (\<lambda>i. wrap (baseAddress + wrap (i * blockSize')))
                                         [0..<blockCount],
                          totalBlocks = blockCount, usedBlocks = 0\<rparr>
                   in (Inr (), c\<lparr>arena := a', memoryPools := memoryPools c @ [newPool]\<rparr>)))"

definition shouldCreatePool :: "nat \<Rightarrow> AdaptiveMemoryAllocator \<Rightarrow> bool" where
  "shouldCreatePool sz c =
     shouldCreatePoolForSize (profiler c) sz (poolCreationThreshold (params c))"

definition cleanupUnusedPools :: "AdaptiveMemoryAllocator \<Rightarrow> AdaptiveMemoryAllocator" where
  "cleanupUnusedPools c =
     c\<lparr>memoryPools := filter (\<lambda>pool. totalBlocks pool \<noteq> 0) (memoryPools c)\<rparr>"

text \<open>
  \<open>updatePoolUtilization\<close>. With \<open>totalBlocks = 0\<close> the quotient is not a number and
  the comparison is false.
\<close>

definition updatePoolUtilization :: "AdaptiveMemoryAllocator \<Rightarrow> AdaptiveMemoryAllocator" where
  "updatePoolUtilization c =
     c\<lparr>memoryPools :=
         map (\<lambda>pool.
                if double_less (double_div (real (usedBlocks pool)) (real (totalBlocks pool)))
                     (2 / 10)
                then pool\<lparr>totalBlocks := 0\<rparr> else pool)
             (memoryPools c)\<rparr>"

subsection \<open>Adaptation\<close>

text \<open>
  \<open>adjustParameters\<close>. The compound assignments on the two \<open>size_t\<close> fields multiply
  in \<open>double\<close> and convert back, which truncates.
\<close>

definition adjustParameters :: "AdaptiveMemoryAllocator \<Rightarrow> AdaptiveMemoryAllocator" where
  "adjustParameters c =
     (let metrics = getPerformanceMetrics (profiler c) (arena c);
          p0 = params c;
          p1 = (if double_less (hitRate metrics) (8 / 10)
                then p0\<lparr>fragmentationThreshold := fragmentationThreshold p0 * (11 / 10)\<rparr>
                else if double_greater (hitRate metrics) (95 / 100)
                then p0\<lparr>fragmentationThreshold := fragmentationThreshold p0 * (9 / 10)\<rparr>
                else p0);
          p2 = (if failedAllocations metrics > 100
                then p1\<lparr>poolCreationThreshold :=
                          nat \<lfloor>real (poolCreationThreshold p1) * (9 / 10)\<rfloor>\<rparr>
                else p1);
          p3 = (if averageAllocationTime metrics > 1000
                then p2\<lparr>adaptationInterval :=
                          nat \<lfloor>real (adaptationInterval p2) * (12 / 10)\<rfloor>\<rparr>
                else p2\<lparr>adaptationInterval :=
                          nat \<lfloor>real (adaptationInterval p2) * (8 / 10)\<rfloor>\<rparr>)
      in c\<lparr>params := p3\<rparr>)"

text \<open>
  The loop of \<open>optimizePools\<close> over the recommended sizes; an exception of
  \<open>createMemoryPool\<close> ends it.
\<close>

fun optimizePools_loop ::
  "nat list \<Rightarrow> real \<Rightarrow> AdaptiveMemoryAllocator \<Rightarrow> (error + unit) \<times> AdaptiveMemoryAllocator" where
  "optimizePools_loop [] conf c = (Inr (), c)"
| "optimizePools_loop (sz # sizes) conf c =
     (let poolExists = (\<exists>pool \<in> set (memoryPools c). blockSize pool = sz)
      in if \<not> poolExists
         then (let count = max 5 (nat \<lfloor>conf * 20\<rfloor>)
               in case createMemoryPool sz count c of
                    (Inl e, c') \<Rightarrow> (Inl e, c')
                  | (Inr u, c') \<Rightarrow> optimizePools_loop sizes conf c')
         else optimizePools_loop sizes conf c)"

definition optimizePools ::
  "AdaptiveMemoryAllocator \<Rightarrow> (error + unit) \<times> AdaptiveMemoryAllocator" where
  "optimizePools c =
     (let prediction = predictNextAllocation (profiler c)
      in optimizePools_loop (recommendedPoolSizes prediction) (confidence prediction)
           (cleanupUnusedPools c))"

definition adaptStrategy ::
  "AdaptiveMemoryAllocator \<Rightarrow> (error + unit) \<times> AdaptiveMemoryAllocator" where
  "adaptStrategy c =
     (if \<not> adaptiveMode c then (Inr (), c)
      else (let metrics = getPerformanceMetrics (profiler c) (arena c);
                prediction = predictNextAllocation (profiler c);
                c1 = (if double_greater (fragmentationRatio metrics)
                           (fragmentationThreshold (params c))
                      then c\<lparr>arena :=
                               setAllocationStrategy (recommendedStrategy prediction) (arena c)\<rparr>
                      else c)
            in case optimizePools c1 of
                 (Inl e, c2) \<Rightarrow> (Inl e, c2)
               | (Inr u, c2) \<Rightarrow>
                   (let c3 = adjustParameters c2
                    in (Inr (), c3\<lparr>params := (params c3)\<lparr>operationsSinceLastAdaptation := 0\<rparr>\<rparr>))))"

definition enableAdaptiveMode ::
  "bool \<Rightarrow> AdaptiveMemoryAllocator \<Rightarrow> (error + unit) \<times> AdaptiveMemoryAllocator" where
  "enableAdaptiveMode enable c =
     (let c1 = c\<lparr>adaptiveMode := enable\<rparr>
      in if enable
         then adaptStrategy (c1\<lparr>params := (params c1)\<lparr>operationsSinceLastAdaptation := 0\<rparr>\<rparr>)
         else (Inr (), c1))"

subsection \<open>allocate and deallocate of the controller\<close>

text \<open>
  The part of \<open>AdaptiveMemoryAllocator::allocate\<close> from "Fall back to regular
  allocation" on. \<open>RECORD_ALLOCATION\<close> stands on line 60 of the file.
\<close>

definition allocate_fallback ::
  "int \<Rightarrow> nat \<Rightarrow> AdaptiveMemoryAllocator \<Rightarrow> (error + nat) \<times> AdaptiveMemoryAllocator" where
  "allocate_fallback now sz c =
     (case allocate sz (arena c) of
        (Inl e, a') \<Rightarrow> (Inl e, c\<lparr>arena := a'\<rparr>)
      | (Inr addr, a') \<Rightarrow>
          (let c1 = c\<lparr>arena := a',
                      profiler := MemoryProfiler_recordAllocation now sz addr 0 (profiler c)\<rparr>;
               c2 = c1\<lparr>params := (params c1)\<lparr>operationsSinceLastAdaptation :=
                          wrap (operationsSinceLastAdaptation (params c1) + 1)\<rparr>\<rparr>
           in case (if operationsSinceLastAdaptation (params c2) \<ge> adaptationInterval (params c2)
                    then adaptStrategy c2 else (Inr (), c2)) of
                (Inl e, c3) \<Rightarrow> (Inl e, c3)
              | (Inr u, c3) \<Rightarrow>
                  (Inr addr,
                   c3\<lparr>leakDetector :=
                        MemoryLeakDetector_recordAllocation now addr sz
                          ''AdaptiveMemoryAllocator.cpp'' 60 (leakDetector c3)\<rparr>)))"

definition AdaptiveMemoryAllocator_allocate ::
  "int \<Rightarrow> nat \<Rightarrow> AdaptiveMemoryAllocator \<Rightarrow> (error + nat) \<times> AdaptiveMemoryAllocator" where
  "AdaptiveMemoryAllocator_allocate now sz c =
     (if adaptiveMode c
      then (case allocateFromPool sz c of
              (addr, c1) \<Rightarrow>
                if addr \<noteq> 0
                then (Inr addr,
                      c1\<lparr>profiler := MemoryProfiler_recordAllocation now sz addr 0 (profiler c1)\<rparr>)
                else if shouldCreatePool sz c1
                then (case createMemoryPool sz 10 c1 of
                        (Inl e, c2) \<Rightarrow> (Inl e, c2)
                      | (Inr u, c2) \<Rightarrow>
                          (case allocateFromPool sz c2 of
                             (addr2, c3) \<Rightarrow>
                               if addr2 \<noteq> 0
                               then (Inr addr2,
                                     c3\<lparr>profiler :=
                                          MemoryProfiler_recordAllocation now sz addr2 0
                                            (profiler c3)\<rparr>)
                               else allocate_fallback now sz c3))
                else allocate_fallback now sz c1)
      else allocate_fallback now sz c)"

text \<open>
  The loop of \<open>AdaptiveMemoryAllocator::deallocate\<close> over the pools. The start of a
  pool's range is read with \<open>pool.freeBlocks.front()\<close>; on a pool without a free slot
  this is \<open>front()\<close> of an empty vector, whose behaviour is undefined. \<open>usedBlocks--\<close>
  wraps around at 0. The result says whether a pool took the address.
\<close>

fun deallocate_pool_loop ::
  "nat \<Rightarrow> MemoryPool list \<Rightarrow> error + (bool \<times> MemoryPool list)" where
  "deallocate_pool_loop addr [] = Inr (False, [])"
| "deallocate_pool_loop addr (pool # pools) =
     (case freeBlocks pool of
        [] \<Rightarrow> Inl (UndefinedBehaviour ''front() of an empty vector'')
      | poolStart # _ \<Rightarrow>
          (let poolEnd = wrap (poolStart + wrap (totalBlocks pool * blockSize pool))
           in if addr \<ge> poolStart \<and> addr < poolEnd
              then Inr (True,
                        pool\<lparr>freeBlocks := freeBlocks pool @ [addr],
                             usedBlocks := wrap (usedBlocks pool + (2 ^ 64 - 1))\<rparr> # pools)
              else (case deallocate_pool_loop addr pools of
                      Inl e \<Rightarrow> Inl e
                    | Inr (handled, pools') \<Rightarrow> Inr (handled, pool # pools'))))"

text \<open>
  After undefined behaviour the state that is returned has no meaning; it is the state
  in which the undefined operation was reached.
\<close>

definition AdaptiveMemoryAllocator_deallocate ::
  "int \<Rightarrow> nat \<Rightarrow> AdaptiveMemoryAllocator \<Rightarrow> (error + unit) \<times> AdaptiveMemoryAllocator" where
  "AdaptiveMemoryAllocator_deallocate now addr c =
     (let c0 = c\<lparr>leakDetector := MemoryLeakDetector_recordDeallocation addr (leakDetector c)\<rparr>
      in case deallocate_pool_loop addr (memoryPools c0) of
           Inl e \<Rightarrow> (Inl e, c0)
         | Inr (True, pools) \<Rightarrow>
             (Inr (),
              c0\<lparr>memoryPools := pools,
                  profiler := MemoryProfiler_recordDeallocation now addr (profiler c0)\<rparr>)
         | Inr (False, pools) \<Rightarrow>
             (case deallocate addr (arena c0) of
                (Inl e, a') \<Rightarrow> (Inl e, c0\<lparr>arena := a'\<rparr>)
              | (Inr u, a') \<Rightarrow>
                  (Inr (),
                   updatePoolUtilization
                     (c0\<lparr>arena := a',
                         profiler := MemoryProfiler_recordDeallocation now addr (profiler c0)\<rparr>))))"

text \<open>
  The states of the controller that its constructor and its public members produce, with
  clock readings after the epoch.
\<close>

inductive controller_reachable :: "AdaptiveMemoryAllocator \<Rightarrow> bool" where
  ctl_init: "controller_reachable (AdaptiveMemoryAllocator_init totalSize detector)"
| ctl_allocate:
    "controller_reachable c \<Longrightarrow> 0 < now \<Longrightarrow>
       controller_reachable (snd (AdaptiveMemoryAllocator_allocate now sz c))"
| ctl_deallocate:
    "controller_reachable c \<Longrightarrow> 0 < now \<Longrightarrow>
       controller_reachable (snd (AdaptiveMemoryAllocator_deallocate now addr c))"
| ctl_enable: "controller_reachable c \<Longrightarrow> controller_reachable (snd (enableAdaptiveMode enable c))"
| ctl_adjust: "controller_reachable c \<Longrightarrow> controller_reachable (adjustParameters c)"
| ctl_create:
    "controller_reachable c \<Longrightarrow>
       controller_reachable (snd (createMemoryPool blockSize' blockCount c))"
| ctl_optimize: "controller_reachable c \<Longrightarrow> controller_reachable (snd (optimizePools c))"

section \<open>Concrete states\<close>

text \<open>
  A profiler history with three records of address 24: one already deallocated, then
  two that are still active, the second of them the newest.
\<close>

definition three_records :: MemoryProfiler where
  "three_records =
     \<lparr>allocationHistory =
        [\<lparr>rec_size = 8, rec_address = 24, allocationTime = 1000000,
          deallocationTime = 2000000, isActive = False, poolId = 0\<rparr>,
         \<lparr>rec_size = 8, rec_address = 24, allocationTime = 3000000, deallocationTime = 0,
          isActive = True, poolId = 0\<rparr>,
         \<lparr>rec_size = 16, rec_address = 24, allocationTime = 4000000, deallocationTime = 0,
          isActive = True, poolId = 0\<rparr>],
      lifetimeDistribution = [(8, [1])],
      sizeFrequency = [(8, 2), (16, 1)]\<rparr>"

text \<open>
  A controller over 64 bytes after two calls of \<open>createMemoryPool(8, 2)\<close>. The first
  call obtains the arena block at address 0, takes that address for a failure and makes
  no pool; the second carves the pool at base address 16, with the slots 16 and 24.
\<close>

definition pool_ready :: AdaptiveMemoryAllocator where
  "pool_ready =
     snd (createMemoryPool 8 2 (snd (createMemoryPool 8 2
       (AdaptiveMemoryAllocator_init 64 MemoryLeakDetector_init))))"

text \<open>Then \<open>allocate(8)\<close> twice: both slots of the pool are in use.\<close>

definition pool_exhausted :: AdaptiveMemoryAllocator where
  "pool_exhausted =
     snd (AdaptiveMemoryAllocator_allocate 2000 8
       (snd (AdaptiveMemoryAllocator_allocate 1000 8 pool_ready)))"

text \<open>
  The exhausted pool after slot 24 has come back to it, as it is when the read of
  \<open>front()\<close> on the empty vector gave a start that let address 24 pass the range test:
  the free list is \<open>[24]\<close>.
\<close>

definition pool_refilled :: AdaptiveMemoryAllocator where
  "pool_refilled =
     pool_exhausted\<lparr>memoryPools :=
       [\<lparr>blockSize = 8, freeBlocks = [24], totalBlocks = 2, usedBlocks = 1\<rparr>]\<rparr>"

text \<open>
  From \<open>pool_ready\<close>: \<open>allocate(10)\<close> is served by the arena at address 32,
  \<open>deallocate(32)\<close> frees it and marks the unused pool by \<open>totalBlocks = 0\<close>, and
  \<open>allocate(8)\<close> is served from the pool with slot 24.
\<close>

definition pool_flagged :: AdaptiveMemoryAllocator where
  "pool_flagged =
     snd (AdaptiveMemoryAllocator_allocate 3000 8
       (snd (AdaptiveMemoryAllocator_deallocate 2000 32
         (snd (AdaptiveMemoryAllocator_allocate 1000 10 pool_ready)))))"

text \<open>A fresh controller over 1024 bytes after one \<open>allocate(64)\<close>, served by the arena.\<close>

definition one_allocation :: AdaptiveMemoryAllocator where
  "one_allocation =
     snd (AdaptiveMemoryAllocator_allocate 1000 64
       (AdaptiveMemoryAllocator_init 1024 MemoryLeakDetector_init))"


section \<open>Properties of the arena\<close>

lemma first_fit_loop_Some:
  "first_fit_loop n bs i = Some j \<Longrightarrow> \<exists>k<length bs. j = i + k \<and> fits n (bs ! k)"
proof (induction bs arbitrary: i)
  case Nil
  then show ?case by simp
next
  case (Cons b bs)
  show ?case
  proof (cases "isFree b \<and> n \<le> bsize b")
    case True
    with Cons.prems show ?thesis by (auto simp: fits_def)
  next
    case False
    with Cons.prems have "first_fit_loop n bs (Suc i) = Some j" by auto
    from Cons.IH[OF this] obtain k where "k < length bs" "j = Suc i + k" "fits n (bs ! k)"
      by blast
    then have "Suc k < length (b # bs) \<and> j = i + Suc k \<and> fits n ((b # bs) ! Suc k)" by simp
    then show ?thesis by blast
  qed
qed

lemma best_fit_loop_Some:
  "best_fit_loop n bs i acc d = Some j \<Longrightarrow>
     acc = Some j \<or> (\<exists>k<length bs. j = i + k \<and> fits n (bs ! k))"
proof (induction bs arbitrary: i acc d)
  case Nil
  then show ?case by simp
next
  case (Cons b bs)
  have step: "\<exists>k<length (b # bs). j = i + k \<and> fits n ((b # bs) ! k)"
    if "\<exists>k<length bs. j = Suc i + k \<and> fits n (bs ! k)"
  proof -
    from that obtain k where "k < length bs" "j = Suc i + k" "fits n (bs ! k)" by blast
    then have "Suc k < length (b # bs) \<and> j = i + Suc k \<and> fits n ((b # bs) ! Suc k)" by simp
    then show ?thesis by blast
  qed
  let ?new = "isFree b \<and> n \<le> bsize b \<and> bsize b - n < d"
  show ?case
  proof (cases ?new)
    case True
    with Cons.prems have "best_fit_loop n bs (Suc i) (Some i) (bsize b - n) = Some j"
      by (simp add: Let_def)
    from Cons.IH[OF this] show ?thesis
    proof
      assume "Some i = Some j"
      with True have "0 < length (b # bs) \<and> j = i + 0 \<and> fits n ((b # bs) ! 0)"
        by (simp add: fits_def)
      then show ?thesis by blast
    next
      assume "\<exists>k<length bs. j = Suc i + k \<and> fits n (bs ! k)"
      from step[OF this] show ?thesis by blast
    qed
  next
    case False
    with Cons.prems have "best_fit_loop n bs (Suc i) acc d = Some j"
      by (auto simp: Let_def split: if_splits)
    from Cons.IH[OF this] step show ?thesis by blast
  qed
qed

lemma worst_fit_loop_Some:
  "worst_fit_loop n bs i acc d = Some j \<Longrightarrow>
     acc = Some j \<or> (\<exists>k<length bs. j = i + k \<and> fits n (bs ! k))"
proof (induction bs arbitrary: i acc d)
  case Nil
  then show ?case by simp
next
  case (Cons b bs)
  have step: "\<exists>k<length (b # bs). j = i + k \<and> fits n ((b # bs) ! k)"
    if "\<exists>k<length bs. j = Suc i + k \<and> fits n (bs ! k)"
  proof -
    from that obtain k where "k < length bs" "j = Suc i + k" "fits n (bs ! k)" by blast
    then have "Suc k < length (b # bs) \<and> j = i + Suc k \<and> fits n ((b # bs) ! Suc k)" by simp
    then show ?thesis by blast
  qed
  let ?new = "isFree b \<and> n \<le> bsize b \<and> d < bsize b - n"
  show ?case
  proof (cases ?new)
    case True
    with Cons.prems have "worst_fit_loop n bs (Suc i) (Some i) (bsize b - n) = Some j"
      by (simp add: Let_def)
    from Cons.IH[OF this] show ?thesis
    proof
      assume "Some i = Some j"
      with True have "0 < length (b # bs) \<and> j = i + 0 \<and> fits n ((b # bs) ! 0)"
        by (simp add: fits_def)
      then show ?thesis by blast
    next
      assume "\<exists>k<length bs. j = Suc i + k \<and> fits n (bs ! k)"
      from step[OF this] show ?thesis by blast
    qed
  next
    case False
    with Cons.prems have "worst_fit_loop n bs (Suc i) acc d = Some j"
      by (auto simp: Let_def split: if_splits)
    from Cons.IH[OF this] step show ?thesis by blast
  qed
qed

lemma findSuitableBlock_Some:
  assumes "findSuitableBlock n s = Some i"
  shows "i < length (memoryBlocks s) \<and> fits n (memoryBlocks s ! i)"
proof (cases "strategy s")
  case FIRST_FIT
  with assms first_fit_loop_Some[of n "memoryBlocks s" 0 i] show ?thesis
    by (auto simp: findSuitableBlock_def)
next
  case BEST_FIT
  with assms best_fit_loop_Some[of n "memoryBlocks s" 0 None SIZE_MAX i] show ?thesis
    by (auto simp: findSuitableBlock_def)
next
  case WORST_FIT
  with assms worst_fit_loop_Some[of n "memoryBlocks s" 0 None 0 i] show ?thesis
    by (auto simp: findSuitableBlock_def)
qed

lemma merge_loop_fst: "fst (merge_loop bs m) = coalesce bs"
  by (induction bs m rule: merge_loop.induct) (simp_all add: case_prod_beta)

lemma naf_head_cong:
  "no_adjacent_free (x # ys) \<Longrightarrow> (isFree y \<longrightarrow> isFree x) \<Longrightarrow> no_adjacent_free (y # ys)"
  by (cases ys) auto

lemma naf_append_Cons:
  "no_adjacent_free (xs @ y # ys) = (no_adjacent_free (xs @ [y]) \<and> no_adjacent_free (y # ys))"
proof (induction xs rule: no_adjacent_free.induct)
  case (1 b c rest)
  then show ?case by simp
qed auto

lemma naf_last_cong:
  "no_adjacent_free (xs @ [x]) \<Longrightarrow> (isFree y \<longrightarrow> isFree x) \<Longrightarrow> no_adjacent_free (xs @ [y])"
proof (induction xs rule: no_adjacent_free.induct)
  case (1 b c rest)
  then show ?case by simp
qed auto

lemma coalesce_head:
  "\<exists>b' rest'. coalesce (b # rest) = b' # rest' \<and> isFree b' = isFree b \<and> address b' = address b"
proof (induction rest arbitrary: b)
  case Nil
  show ?case by simp
next
  case (Cons c rest)
  show ?case
  proof (cases "isFree b \<and> isFree c")
    case True
    with Cons[of "b\<lparr>bsize := bsize b + bsize c\<rparr>"] show ?thesis by simp
  next
    case False
    then show ?thesis by auto
  qed
qed

lemma coalesce_naf: "no_adjacent_free (coalesce bs)"
proof (induction bs rule: coalesce.induct)
  case (1 b c rest)
  show ?case
  proof (cases "isFree b \<and> isFree c")
    case True
    with 1(1) show ?thesis by simp
  next
    case False
    obtain c' rest' where h: "coalesce (c # rest) = c' # rest'" "isFree c' = isFree c"
      using coalesce_head[of c rest] by blast
    from False 1(2) have "no_adjacent_free (coalesce (c # rest))" by blast
    with h False have "no_adjacent_free (b # coalesce (c # rest))" by auto
    with False show ?thesis by auto
  qed
qed simp_all

lemma coalesce_naf_id: "no_adjacent_free bs \<Longrightarrow> coalesce bs = bs"
  by (induction bs rule: coalesce.induct) auto

lemma coalesce_prefix:
  "no_adjacent_free (pre @ [x]) \<Longrightarrow> coalesce (pre @ x # rest) = pre @ coalesce (x # rest)"
proof (induction pre)
  case Nil
  then show ?case by simp
next
  case (Cons p pre)
  from Cons.prems have "no_adjacent_free (pre @ [x])"
    by (cases pre) auto
  from Cons.IH[OF this] have ih: "coalesce (pre @ x # rest) = pre @ coalesce (x # rest)" .
  obtain y ys where y: "pre @ x # rest = y # ys" "y = hd (pre @ [x])"
    by (cases pre) auto
  from Cons.prems y have "\<not> (isFree p \<and> isFree y)" by (cases pre) auto
  then have "coalesce (p # y # ys) = p # coalesce (y # ys)" by auto
  with y(1) ih show ?case by simp
qed

lemma chain_append:
  "chain a (xs @ ys) = (chain a xs \<and> chain (a + sum_list (map bsize xs)) ys)"
  by (induction xs arbitrary: a) (auto simp: add.assoc)

lemma coalesce_chain: "chain a bs \<Longrightarrow> chain a (coalesce bs)"
proof (induction bs arbitrary: a rule: coalesce.induct)
  case (1 b c rest)
  show ?case
  proof (cases "isFree b \<and> isFree c")
    case True
    from 1(3) have "chain a (b\<lparr>bsize := bsize b + bsize c\<rparr> # rest)"
      by (simp add: add.assoc)
    with True 1(1) show ?thesis by simp
  next
    case False
    from 1(3) have "chain (a + bsize b) (c # rest)" "address b = a" by auto
    with 1(2)[OF False] have "chain a (b # coalesce (c # rest))" by simp
    with False show ?thesis by auto
  qed
qed simp_all

lemma coalesce_sum: "sum_list (map bsize (coalesce bs)) = sum_list (map bsize bs)"
  by (induction bs rule: coalesce.induct) auto

lemma coalesce_addresses: "address ` set (coalesce bs) \<subseteq> address ` set bs"
proof (induction bs rule: coalesce.induct)
  case (1 b c rest)
  show ?case
  proof (cases "isFree b \<and> isFree c")
    case True
    with 1(1) show ?thesis by auto
  next
    case False
    with 1(2) show ?thesis by auto
  qed
qed simp_all

lemma coalesce_sorted:
  "sorted_wrt (<) (map address bs) \<Longrightarrow> sorted_wrt (<) (map address (coalesce bs))"
proof (induction bs rule: coalesce.induct)
  case (1 b c rest)
  show ?case
  proof (cases "isFree b \<and> isFree c")
    case True
    from 1(3) have "sorted_wrt (<) (map address (b\<lparr>bsize := bsize b + bsize c\<rparr> # rest))"
      by auto
    with True 1(1) show ?thesis by simp
  next
    case False
    from 1(3) have s: "sorted_wrt (<) (map address (c # rest))"
      and lt: "\<forall>x\<in>address ` set (c # rest). address b < x" by auto
    from lt coalesce_addresses[of "c # rest"]
    have "\<forall>x\<in>address ` set (coalesce (c # rest)). address b < x" by blast
    with 1(2)[OF False s] have "sorted_wrt (<) (map address (b # coalesce (c # rest)))"
      by simp
    with False show ?thesis by auto
  qed
qed simp_all

lemma merge_loop_snd:
  "distinct (map address bs) \<Longrightarrow>
     snd (merge_loop bs m) =
       (\<lambda>a. if a \<in> address ` set bs - address ` set (coalesce bs) then None else m a)"
proof (induction bs m rule: merge_loop.induct)
  case (1 b c rest m)
  show ?case
  proof (cases "isFree b \<and> isFree c")
    case True
    let ?b = "b\<lparr>bsize := bsize b + bsize c\<rparr>"
    from 1(3) have d: "distinct (map address (?b # rest))" by auto
    from 1(3) have nc: "address c \<notin> address ` set (?b # rest)" by auto
    with coalesce_addresses[of "?b # rest"]
    have nr: "address c \<notin> address ` set (coalesce (?b # rest))" by blast
    have hd: "address b \<in> address ` set (coalesce (?b # rest))"
      using coalesce_head[of ?b rest] by force
    from True have e1: "merge_loop (b # c # rest) m = merge_loop (?b # rest) (map_erase (address c) m)"
      and e2: "coalesce (b # c # rest) = coalesce (?b # rest)" by simp_all
    have ih: "snd (merge_loop (?b # rest) (map_erase (address c) m)) =
       (\<lambda>a. if a \<in> address ` set (?b # rest) - address ` set (coalesce (?b # rest)) then None
            else map_erase (address c) m a)"
      using 1(1)[OF True d] .
    show ?thesis
      unfolding e1 e2 ih using nc nr hd
      by (auto simp: fun_eq_iff map_erase_def)
  next
    case False
    from 1(3) have d: "distinct (map address (c # rest))" by auto
    from 1(3) have nb: "address b \<notin> address ` set (c # rest)" by auto
    from False have e1: "merge_loop (b # c # rest) m =
        (b # fst (merge_loop (c # rest) m), snd (merge_loop (c # rest) m))"
      and e2: "coalesce (b # c # rest) = b # coalesce (c # rest)"
      by (auto simp: case_prod_beta)
    have ih: "snd (merge_loop (c # rest) m) =
       (\<lambda>a. if a \<in> address ` set (c # rest) - address ` set (coalesce (c # rest)) then None else m a)"
      using 1(2)[OF False d] .
    show ?thesis
      unfolding e1 e2 snd_conv ih using nb
      by (auto simp: fun_eq_iff)
  qed
qed simp_all

lemma sorted_wrt_less_distinct: "sorted_wrt (<) (xs :: nat list) \<Longrightarrow> distinct xs"
  by (induction xs) auto

lemma mark_free_address: "map address (mark_free a bs) = map address bs"
  by (induction bs) auto

lemma mark_free_bsize: "map bsize (mark_free a bs) = map bsize bs"
  by (induction bs) auto

lemma mark_free_chain: "chain a bs \<Longrightarrow> chain a (mark_free x bs)"
  by (induction bs arbitrary: a) auto

lemma mark_free_at:
  "address b \<notin> address ` set pre \<Longrightarrow>
     mark_free (address b) (pre @ b # post) = pre @ b\<lparr>isFree := True\<rparr> # post"
  by (induction pre) auto

lemma arena_inv_map: "arena_inv s \<Longrightarrow> addressMap s = keys_of (address ` set (memoryBlocks s))"
  by (simp add: arena_inv_def keys_of_def)

lemma allocate_Some:
  assumes f: "findSuitableBlock n s = Some i" and n: "n \<noteq> 0"
  shows "allocate n s =
    (Inr (address (memoryBlocks s ! i)),
     s\<lparr>memoryBlocks :=
         (if n < bsize (memoryBlocks s ! i)
          then take i (memoryBlocks s) @
               (memoryBlocks s ! i)\<lparr>bsize := n, isFree := False\<rparr> #
               \<lparr>address = address (memoryBlocks s ! i) + n,
                bsize = bsize (memoryBlocks s ! i) - n, isFree = True\<rparr> #
               drop (Suc i) (memoryBlocks s)
          else take i (memoryBlocks s) @ (memoryBlocks s ! i)\<lparr>isFree := False\<rparr> #
               drop (Suc i) (memoryBlocks s)),
       addressMap :=
         (if n < bsize (memoryBlocks s ! i)
          then (addressMap s)(address (memoryBlocks s ! i) + n \<mapsto>
                 address (memoryBlocks s ! i) + n)
          else addressMap s)\<rparr>)"
proof -
  from findSuitableBlock_Some[OF f] have i: "i < length (memoryBlocks s)" by simp
  then have len: "length (take i (memoryBlocks s)) = i" by simp
  show ?thesis
  proof (cases "n < bsize (memoryBlocks s ! i)")
    case True
    then show ?thesis using f n i
      by (simp add: allocate_def splitBlock_def Let_def nth_append list_update_append)
  next
    case False
    then show ?thesis using f n i
      by (simp add: allocate_def Let_def upd_conv_take_nth_drop)
  qed
qed

lemma chain_lower:
  "chain a bs \<Longrightarrow> sorted_wrt (<) (map address bs) \<Longrightarrow> \<forall>y\<in>set bs. a \<le> address y"
  by (cases bs) (auto simp: less_imp_le)

lemma allocate_fail: "fst (allocate n s) = Inl e \<Longrightarrow> snd (allocate n s) = s"
  by (auto simp: allocate_def Let_def split: option.splits if_splits)

lemma arena_inv_allocate:
  assumes inv: "arena_inv s"
  shows "arena_inv (snd (allocate n s))"
proof (cases "n = 0 \<or> findSuitableBlock n s = None")
  case True
  then have "snd (allocate n s) = s" by (auto simp: allocate_def)
  with inv show ?thesis by simp
next
  case False
  then obtain i where f: "findSuitableBlock n s = Some i" and n: "n \<noteq> 0" by auto
  define b where "b = memoryBlocks s ! i"
  define pre where "pre = take i (memoryBlocks s)"
  define post where "post = drop (Suc i) (memoryBlocks s)"
  from findSuitableBlock_Some[OF f] have i: "i < length (memoryBlocks s)"
    and fit: "isFree b" "n \<le> bsize b" by (simp_all add: b_def fits_def)
  from i have dec: "memoryBlocks s = pre @ b # post"
    by (simp add: b_def pre_def post_def id_take_nth_drop[symmetric])
  from inv dec have ch: "chain 0 (pre @ b # post)"
    and sm: "sum_list (map bsize (pre @ b # post)) = totalMemorySize s"
    and so: "sorted_wrt (<) (map address (pre @ b # post))"
    and nf: "no_adjacent_free (pre @ b # post)"
    and mp: "addressMap s = keys_of (address ` set (pre @ b # post))"
    by (simp_all add: arena_inv_def keys_of_def)
  from ch have ch1: "chain 0 pre" "address b = sum_list (map bsize pre)"
    "chain (sum_list (map bsize pre) + bsize b) post"
    by (simp_all add: chain_append)
  from so have so1: "sorted_wrt (<) (map address pre)" "sorted_wrt (<) (map address post)"
    "\<forall>x\<in>set pre. address x < address b" "\<forall>y\<in>set post. address b < address y"
    "\<forall>x\<in>set pre. \<forall>y\<in>set post. address x < address y"
    by (auto simp: sorted_wrt_append)
  from chain_lower[OF ch1(3) so1(2)] ch1(2)
  have low: "\<forall>y\<in>set post. address b + bsize b \<le> address y" by simp
  from nf have nf1: "no_adjacent_free (pre @ [b])" "no_adjacent_free (b # post)"
    using naf_append_Cons[of pre b post] by simp_all
  show ?thesis
  proof (cases "n < bsize b")
    case True
    let ?b1 = "b\<lparr>bsize := n, isFree := False\<rparr>"
    let ?nb = "\<lparr>address = address b + n, bsize = bsize b - n, isFree = True\<rparr>"
    from allocate_Some[OF f n] True
    have bl: "memoryBlocks (snd (allocate n s)) = pre @ ?b1 # ?nb # post"
      and am: "addressMap (snd (allocate n s)) = (addressMap s)(address b + n \<mapsto> address b + n)"
      and tm: "totalMemorySize (snd (allocate n s)) = totalMemorySize s"
      by (simp_all add: b_def pre_def post_def)
    have c1: "chain 0 (pre @ ?b1 # ?nb # post)"
      using ch1 True by (simp add: chain_append)
    have c2: "sum_list (map bsize (pre @ ?b1 # ?nb # post)) = totalMemorySize s"
      using sm True by simp
    have c3: "sorted_wrt (<) (map address (pre @ ?b1 # ?nb # post))"
      using so1 low True n by (fastforce simp: sorted_wrt_append)
    have "no_adjacent_free (pre @ [?b1])" using naf_last_cong[OF nf1(1), of ?b1] by simp
    moreover have "no_adjacent_free (?nb # post)" using naf_head_cong[OF nf1(2), of ?nb] fit by simp
    then have "no_adjacent_free (?b1 # ?nb # post)" by simp
    ultimately have c4: "no_adjacent_free (pre @ ?b1 # ?nb # post)"
      using naf_append_Cons[of pre ?b1 "?nb # post"] by simp
    have c5: "(addressMap s)(address b + n \<mapsto> address b + n) =
        keys_of (address ` set (pre @ ?b1 # ?nb # post))"
      unfolding mp by (auto simp: keys_of_def fun_eq_iff)
    show ?thesis
      unfolding arena_inv_def bl am tm using c1 c2 c3 c4 c5 by (simp add: keys_of_def)
  next
    case False
    let ?b1 = "b\<lparr>isFree := False\<rparr>"
    from allocate_Some[OF f n] False
    have bl: "memoryBlocks (snd (allocate n s)) = pre @ ?b1 # post"
      and am: "addressMap (snd (allocate n s)) = addressMap s"
      and tm: "totalMemorySize (snd (allocate n s)) = totalMemorySize s"
      by (simp_all add: b_def pre_def post_def)
    have c1: "chain 0 (pre @ ?b1 # post)" using ch by (simp add: chain_append)
    have c2: "sum_list (map bsize (pre @ ?b1 # post)) = totalMemorySize s" using sm by simp
    have c3: "sorted_wrt (<) (map address (pre @ ?b1 # post))" using so by simp
    have "no_adjacent_free (pre @ [?b1])" using naf_last_cong[OF nf1(1), of ?b1] by simp
    moreover have "no_adjacent_free (?b1 # post)" using naf_head_cong[OF nf1(2), of ?b1] by simp
    ultimately have c4: "no_adjacent_free (pre @ ?b1 # post)"
      using naf_append_Cons[of pre ?b1 post] by simp
    have c5: "addressMap s = keys_of (address ` set (pre @ ?b1 # post))"
      unfolding mp by (auto simp: keys_of_def fun_eq_iff)
    show ?thesis
      unfolding arena_inv_def bl am tm using c1 c2 c3 c4 c5 by (simp add: keys_of_def)
  qed
qed

lemma mergeFreeBlocks_fields:
  "memoryBlocks (mergeFreeBlocks s) = coalesce (memoryBlocks s)"
  "addressMap (mergeFreeBlocks s) = snd (merge_loop (memoryBlocks s) (addressMap s))"
  "totalMemorySize (mergeFreeBlocks s) = totalMemorySize s"
  "strategy (mergeFreeBlocks s) = strategy s"
  by (simp_all add: mergeFreeBlocks_def case_prod_beta merge_loop_fst)

lemma deallocate_Some:
  "addressMap s a = Some node \<Longrightarrow>
     deallocate a s = (Inr (), mergeFreeBlocks (s\<lparr>memoryBlocks := mark_free node (memoryBlocks s)\<rparr>))"
  by (simp add: deallocate_def)

lemma deallocate_None: "addressMap s a = None \<Longrightarrow> deallocate a s = (Inl InvalidAddress, s)"
  by (simp add: deallocate_def)

lemma mark_free_sorted:
  "sorted_wrt (<) (map address bs) \<Longrightarrow> sorted_wrt (<) (map address (mark_free x bs))"
  by (simp add: mark_free_address)

lemma mark_free_set: "address ` set (mark_free x bs) = address ` set bs"
  using mark_free_address[of x bs] by (metis list.set_map)

lemma arena_inv_deallocate:
  assumes inv: "arena_inv s"
  shows "arena_inv (snd (deallocate a s))"
proof (cases "addressMap s a")
  case None
  with inv show ?thesis by (simp add: deallocate_None)
next
  case (Some node)
  let ?bs = "mark_free node (memoryBlocks s)"
  let ?s1 = "s\<lparr>memoryBlocks := ?bs\<rparr>"
  from inv have ch: "chain 0 (memoryBlocks s)"
    and sm: "sum_list (map bsize (memoryBlocks s)) = totalMemorySize s"
    and so: "sorted_wrt (<) (map address (memoryBlocks s))"
    and mp: "addressMap s = keys_of (address ` set (memoryBlocks s))"
    by (simp_all add: arena_inv_def keys_of_def)
  have d: "distinct (map address ?bs)"
    using sorted_wrt_less_distinct[OF so] by (simp add: mark_free_address)
  have c1: "chain 0 (coalesce ?bs)" using ch by (simp add: coalesce_chain mark_free_chain)
  have c2: "sum_list (map bsize (coalesce ?bs)) = totalMemorySize s"
    using sm by (simp add: coalesce_sum mark_free_bsize)
  have c3: "sorted_wrt (<) (map address (coalesce ?bs))"
    using so by (simp add: coalesce_sorted mark_free_address)
  have c4: "no_adjacent_free (coalesce ?bs)" by (rule coalesce_naf)
  have c5: "snd (merge_loop ?bs (addressMap s)) = keys_of (address ` set (coalesce ?bs))"
    unfolding merge_loop_snd[OF d] mp mark_free_set
    using coalesce_addresses[of ?bs] by (auto simp: keys_of_def fun_eq_iff mark_free_set)
  show ?thesis
    unfolding deallocate_Some[OF Some] snd_conv arena_inv_def mergeFreeBlocks_fields
    using c1 c2 c3 c4 c5 by (simp add: keys_of_def)
qed

lemma arena_inv_init: "arena_inv (MemoryAllocator_init sz st)"
  by (auto simp: arena_inv_def MemoryAllocator_init_def keys_of_def fun_eq_iff)

lemma arena_inv_strategy: "arena_inv s \<Longrightarrow> arena_inv (setAllocationStrategy st s)"
  by (simp add: arena_inv_def setAllocationStrategy_def)

lemma reachable_arena_inv: "reachable s \<Longrightarrow> arena_inv s"
  by (induction rule: reachable.induct)
    (simp_all add: arena_inv_init arena_inv_allocate arena_inv_deallocate arena_inv_strategy)


subsection \<open>No addition of the arena leaves the range of \<open>size_t\<close>\<close>

lemma chain_bound:
  "chain a bs \<Longrightarrow> b \<in> set bs \<Longrightarrow>
     a \<le> address b \<and> address b + bsize b \<le> a + sum_list (map bsize bs)"
proof (induction bs arbitrary: a)
  case Nil
  then show ?case by simp
next
  case (Cons x xs)
  show ?case
  proof (cases "b = x")
    case True
    with Cons.prems show ?thesis by simp
  next
    case False
    with Cons.prems have "chain (a + bsize x) xs" "b \<in> set xs" by simp_all
    from Cons.IH[OF this] show ?thesis by simp
  qed
qed

lemma total_loop_sum: "total_loop bs acc = acc + sum_list (map bsize (filter isFree bs))"
  by (induction bs arbitrary: acc) simp_all

lemma total_free_le_sum: "getTotalFreeMemory s \<le> sum_list (map bsize (memoryBlocks s))"
  unfolding getTotalFreeMemory_def total_loop_sum
  by (simp add: sum_list_filter_le_nat)

lemma reachable_total: "reachable s \<Longrightarrow> totalMemorySize s \<le> SIZE_MAX"
proof (induction rule: reachable.induct)
  case (reach_init sz st)
  then show ?case by (simp add: MemoryAllocator_init_def)
next
  case (reach_allocate s n)
  then show ?case
    by (auto simp: allocate_def Let_def splitBlock_def split: option.splits)
next
  case (reach_deallocate s a)
  then show ?case
    by (auto simp: deallocate_def mergeFreeBlocks_fields split: option.splits)
next
  case (reach_strategy s st)
  then show ?case by (simp add: setAllocationStrategy_def)
qed

lemma reachable_bounded:
  assumes "reachable s"
  shows "totalMemorySize s \<le> SIZE_MAX \<and>
         getTotalFreeMemory s \<le> totalMemorySize s \<and>
         (\<forall>b\<in>set (memoryBlocks s). address b + bsize b \<le> totalMemorySize s)"
proof -
  from assms have inv: "arena_inv s" by (rule reachable_arena_inv)
  then have ch: "chain 0 (memoryBlocks s)"
    and sm: "sum_list (map bsize (memoryBlocks s)) = totalMemorySize s"
    by (simp_all add: arena_inv_def)
  from chain_bound[OF ch] sm
  have "\<forall>b\<in>set (memoryBlocks s). address b + bsize b \<le> totalMemorySize s" by auto
  with reachable_total[OF assms] total_free_le_sum[of s] sm show ?thesis by simp
qed


subsection \<open>The WORST\_FIT search\<close>

lemma worst_fit_result_bound:
  assumes "worst_fit_result n done acc"
    and "d = (case acc of None \<Rightarrow> 0 | Some j \<Rightarrow> bsize (done ! j) - n)"
    and "k < length done" and "fits n (done ! k)"
  shows "bsize (done ! k) \<le> n + d"
proof (cases acc)
  case None
  with assms(1,3,4) have "bsize (done ! k) = n" by (auto simp: worst_fit_result_def)
  then show ?thesis by simp
next
  case (Some j)
  with assms(1,3,4) have "bsize (done ! k) \<le> bsize (done ! j)" "n < bsize (done ! j)"
    by (auto simp: worst_fit_result_def)
  with Some assms(2) show ?thesis by simp
qed

lemma worst_fit_result_take:
  assumes r: "worst_fit_result n done acc"
    and d: "d = (case acc of None \<Rightarrow> 0 | Some j \<Rightarrow> bsize (done ! j) - n)"
    and fb: "fits n b" and lt: "d < bsize b - n"
  shows "worst_fit_result n (done @ [b]) (Some (length done))"
proof -
  have small: "bsize ((done @ [b]) ! k) < bsize b"
    if "k < length done" "fits n ((done @ [b]) ! k)" for k
  proof -
    from that have "fits n (done ! k)" by (simp add: nth_append)
    from worst_fit_result_bound[OF r d that(1) this] lt that(1)
    show ?thesis by (simp add: nth_append)
  qed
  have "\<forall>k<length (done @ [b]). fits n ((done @ [b]) ! k) \<longrightarrow>
      bsize ((done @ [b]) ! k) \<le> bsize b \<and>
      (bsize ((done @ [b]) ! k) = bsize b \<longrightarrow> length done \<le> k)"
  proof (intro allI impI)
    fix k assume k: "k < length (done @ [b])" and fk: "fits n ((done @ [b]) ! k)"
    show "bsize ((done @ [b]) ! k) \<le> bsize b \<and>
      (bsize ((done @ [b]) ! k) = bsize b \<longrightarrow> length done \<le> k)"
    proof (cases "k < length done")
      case True
      from small[OF True fk] show ?thesis by simp
    next
      case False
      with k have "k = length done" by simp
      then show ?thesis by simp
    qed
  qed
  moreover from lt have "n < bsize b" by simp
  ultimately show ?thesis using fb by (simp add: worst_fit_result_def)
qed

lemma worst_fit_result_keep:
  assumes r: "worst_fit_result n done acc"
    and d: "d = (case acc of None \<Rightarrow> 0 | Some j \<Rightarrow> bsize (done ! j) - n)"
    and no: "\<not> (fits n b \<and> d < bsize b - n)"
  shows "worst_fit_result n (done @ [b]) acc"
proof (cases acc)
  case None
  with d have "d = 0" by simp
  with no have "fits n b \<longrightarrow> bsize b = n" by (auto simp: fits_def)
  with None r show ?thesis by (auto simp: worst_fit_result_def)
next
  case (Some j)
  with r have j: "j < length done" and fj: "fits n (done ! j)" and pj: "n < bsize (done ! j)"
    and mx: "\<forall>k<length done. fits n (done ! k) \<longrightarrow>
         bsize (done ! k) \<le> bsize (done ! j) \<and> (bsize (done ! k) = bsize (done ! j) \<longrightarrow> j \<le> k)"
    by (auto simp: worst_fit_result_def)
  from Some d have "d = bsize (done ! j) - n" by simp
  with no pj have nb: "fits n b \<longrightarrow> bsize b \<le> bsize (done ! j)" by (auto simp: fits_def)
  show ?thesis
    unfolding Some worst_fit_result_def
    using j fj pj mx nb by (auto simp: nth_append less_Suc_eq)
qed

lemma worst_fit_loop_result:
  assumes "worst_fit_result n done acc"
    and "d = (case acc of None \<Rightarrow> 0 | Some j \<Rightarrow> bsize (done ! j) - n)"
    and "i = length done"
  shows "worst_fit_result n (done @ bs) (worst_fit_loop n bs i acc d)"
  using assms
proof (induction bs arbitrary: "done" acc d i)
  case Nil
  then show ?case by simp
next
  case (Cons b bs)
  have app: "done @ b # bs = (done @ [b]) @ bs" by simp
  show ?case
  proof (cases "fits n b \<and> d < bsize b - n")
    case True
    then have step: "worst_fit_loop n (b # bs) i acc d =
        worst_fit_loop n bs (Suc i) (Some i) (bsize b - n)"
      by (simp add: fits_def Let_def)
    from True worst_fit_result_take[OF Cons.prems(1,2)] Cons.prems(3)
    have r: "worst_fit_result n (done @ [b]) (Some i)" by simp
    have "worst_fit_result n ((done @ [b]) @ bs)
        (worst_fit_loop n bs (Suc i) (Some i) (bsize b - n))"
      by (rule Cons.IH[OF r]) (simp_all add: Cons.prems(3))
    with step app show ?thesis by simp
  next
    case False
    then have step: "worst_fit_loop n (b # bs) i acc d = worst_fit_loop n bs (Suc i) acc d"
      by (auto simp: fits_def Let_def)
    from worst_fit_result_keep[OF Cons.prems(1,2) False]
    have r: "worst_fit_result n (done @ [b]) acc" .
    have d': "d = (case acc of None \<Rightarrow> 0 | Some j \<Rightarrow> bsize ((done @ [b]) ! j) - n)"
    proof (cases acc)
      case None
      with Cons.prems(2) show ?thesis by simp
    next
      case (Some j)
      with Cons.prems(1) have "j < length done" by (simp add: worst_fit_result_def)
      with Some Cons.prems(2) show ?thesis by (simp add: nth_append)
    qed
    have "worst_fit_result n ((done @ [b]) @ bs) (worst_fit_loop n bs (Suc i) acc d)"
      by (rule Cons.IH[OF r d']) (simp add: Cons.prems(3))
    with step app show ?thesis by simp
  qed
qed

lemma worst_fit_findSuitableBlock:
  "strategy s = WORST_FIT \<Longrightarrow>
     worst_fit_result n (memoryBlocks s) (findSuitableBlock n s)"
  using worst_fit_loop_result[of n "[]" None 0 0 "memoryBlocks s"]
  by (simp add: findSuitableBlock_def worst_fit_result_def)

lemma worst_fit_loop_no_positive:
  "\<forall>b\<in>set bs. fits n b \<longrightarrow> bsize b = n \<Longrightarrow> worst_fit_loop n bs i None 0 = None"
  by (induction bs arbitrary: i) (auto simp: fits_def Let_def)

lemma worst_fit_only_exact_fits_fails:
  assumes "strategy s = WORST_FIT" and "\<forall>b\<in>set (memoryBlocks s). fits n b \<longrightarrow> bsize b = n"
  shows "fst (allocate n s) = Inl (if n = 0 then ZeroSize else NoFit)"
  using assms worst_fit_loop_no_positive[of "memoryBlocks s" n 0]
  by (simp add: allocate_def findSuitableBlock_def)

subsection \<open>The neighbours of the remainder of a split\<close>

lemma no_adjacent_free_nth:
  "no_adjacent_free xs \<Longrightarrow> Suc k < length xs \<Longrightarrow> \<not> (isFree (xs ! k) \<and> isFree (xs ! Suc k))"
proof (induction xs arbitrary: k rule: no_adjacent_free.induct)
  case (1 b c rest)
  then show ?case by (cases k) auto
qed auto

lemma split_remainder_neighbours:
  assumes inv: "arena_inv s" and f: "findSuitableBlock n s = Some i" and n: "n \<noteq> 0"
    and big: "n < bsize (memoryBlocks s ! i)"
  shows "memoryBlocks (snd (allocate n s)) ! Suc i =
           \<lparr>address = address (memoryBlocks s ! i) + n,
            bsize = bsize (memoryBlocks s ! i) - n, isFree = True\<rparr> \<and>
         \<not> isFree (memoryBlocks (snd (allocate n s)) ! i) \<and>
         (Suc (Suc i) < length (memoryBlocks (snd (allocate n s))) \<longrightarrow>
            \<not> isFree (memoryBlocks (snd (allocate n s)) ! Suc (Suc i)))"
proof -
  let ?bs = "memoryBlocks (snd (allocate n s))"
  from findSuitableBlock_Some[OF f] have i: "i < length (memoryBlocks s)" by simp
  from allocate_Some[OF f n] big
  have bl: "?bs = take i (memoryBlocks s) @
               (memoryBlocks s ! i)\<lparr>bsize := n, isFree := False\<rparr> #
               \<lparr>address = address (memoryBlocks s ! i) + n,
                bsize = bsize (memoryBlocks s ! i) - n, isFree = True\<rparr> #
               drop (Suc i) (memoryBlocks s)"
    by simp
  from i have len: "length (take i (memoryBlocks s)) = i" by simp
  have e1: "?bs ! Suc i = \<lparr>address = address (memoryBlocks s ! i) + n,
                bsize = bsize (memoryBlocks s ! i) - n, isFree = True\<rparr>"
    unfolding bl using len by (simp add: nth_append)
  have e0: "\<not> isFree (?bs ! i)"
    unfolding bl using len by (simp add: nth_append)
  from arena_inv_allocate[OF inv, of n] have naf: "no_adjacent_free ?bs"
    by (simp add: arena_inv_def)
  have "\<not> isFree (?bs ! Suc (Suc i))" if "Suc (Suc i) < length ?bs"
    using no_adjacent_free_nth[OF naf that] e1 by simp
  with e1 e0 show ?thesis by simp
qed

lemma merge_loop_naf_id: "no_adjacent_free bs \<Longrightarrow> merge_loop bs m = (bs, m)"
  by (induction bs m rule: merge_loop.induct) auto

lemma isFree_update_id: "isFree b \<Longrightarrow> b\<lparr>isFree := True\<rparr> = b"
  by (cases b) simp

lemma largest_le_total: "l \<le> t \<Longrightarrow> largest_loop bs l \<le> total_loop bs t"
proof (induction bs arbitrary: l t)
  case Nil
  then show ?case by simp
next
  case (Cons b bs)
  show ?case
  proof (cases "isFree b")
    case True
    from Cons.prems have "bsize b \<le> t + bsize b" "l \<le> t + bsize b" by simp_all
    with True Cons.IH show ?thesis by simp
  next
    case False
    with Cons show ?thesis by simp
  qed
qed

lemma largest_le_total_free: "getLargestFreeBlock s \<le> getTotalFreeMemory s"
  unfolding getLargestFreeBlock_def getTotalFreeMemory_def by (rule largest_le_total) simp

lemma fragmentation_ratio_value:
  "getFragmentationRatio s =
     Some (if getTotalFreeMemory s = 0 then 0
           else 1 - real (getLargestFreeBlock s) / real (getTotalFreeMemory s))"
  by (simp add: getFragmentationRatio_def double_div_def Let_def)

text \<open>
  Allocating and then freeing the returned address gives back the very state the arena
  was in, provided that state satisfies the block invariants.
\<close>

lemma round_trip_state:
  assumes inv: "arena_inv s" and al: "allocate n s = (Inr a, s1)"
  shows "deallocate a s1 = (Inr (), s)"
proof -
  from al have n: "n \<noteq> 0" by (auto simp: allocate_def split: if_splits)
  from al n obtain i where f: "findSuitableBlock n s = Some i"
    by (auto simp: allocate_def split: option.splits)
  define b where "b = memoryBlocks s ! i"
  define pre where "pre = take i (memoryBlocks s)"
  define post where "post = drop (Suc i) (memoryBlocks s)"
  from findSuitableBlock_Some[OF f] have i: "i < length (memoryBlocks s)"
    and fit: "isFree b" "n \<le> bsize b" by (simp_all add: b_def fits_def)
  from i have dec: "memoryBlocks s = pre @ b # post"
    by (simp add: b_def pre_def post_def id_take_nth_drop[symmetric])
  from inv dec have so: "sorted_wrt (<) (map address (pre @ b # post))"
    and nf: "no_adjacent_free (pre @ b # post)"
    and mp: "addressMap s = keys_of (address ` set (pre @ b # post))"
    by (simp_all add: arena_inv_def)
  from so have notin: "address b \<notin> address ` set pre" by (auto simp: sorted_wrt_append)
  from nf have nf1: "no_adjacent_free (pre @ [b])" "no_adjacent_free (b # post)"
    using naf_append_Cons[of pre b post] by simp_all
  from al allocate_Some[OF f n] have a: "a = address b" by (simp add: b_def)
  have inv1: "arena_inv s1" using arena_inv_allocate[OF inv, of n] al by simp
  then have so1: "sorted_wrt (<) (map address (memoryBlocks s1))"
    and mp1: "addressMap s1 = keys_of (address ` set (memoryBlocks s1))"
    by (simp_all add: arena_inv_def)
  show ?thesis
  proof (cases "n < bsize b")
    case True
    let ?b1 = "b\<lparr>bsize := n, isFree := False\<rparr>"
    let ?nb = "\<lparr>address = address b + n, bsize = bsize b - n, isFree = True\<rparr>"
    have "allocate n s = (Inr (address b), s\<lparr>memoryBlocks := pre @ ?b1 # ?nb # post,
        addressMap := (addressMap s)(address b + n \<mapsto> address b + n)\<rparr>)"
      using allocate_Some[OF f n] True by (simp add: b_def pre_def post_def)
    then have "snd (allocate n s) = s\<lparr>memoryBlocks := pre @ ?b1 # ?nb # post,
        addressMap := (addressMap s)(address b + n \<mapsto> address b + n)\<rparr>"
      by (simp only: snd_conv)
    moreover from al have "snd (allocate n s) = s1" by simp
    ultimately have s1: "s1 = s\<lparr>memoryBlocks := pre @ ?b1 # ?nb # post,
        addressMap := (addressMap s)(address b + n \<mapsto> address b + n)\<rparr>"
      by (simp only:)
    then have bl: "memoryBlocks s1 = pre @ ?b1 # ?nb # post" by simp
    have look: "addressMap s1 a = Some a" unfolding mp1 bl a by (simp add: keys_of_def)
    have mf: "mark_free a (memoryBlocks s1) = pre @ ?b1\<lparr>isFree := True\<rparr> # ?nb # post"
      unfolding bl a using mark_free_at[of ?b1 pre "?nb # post"] notin by simp
    have "no_adjacent_free (pre @ [?b1\<lparr>isFree := True\<rparr>])"
      using naf_last_cong[OF nf1(1), of "?b1\<lparr>isFree := True\<rparr>"] fit by simp
    then have "coalesce (pre @ ?b1\<lparr>isFree := True\<rparr> # ?nb # post) =
        pre @ coalesce (?b1\<lparr>isFree := True\<rparr> # ?nb # post)"
      by (rule coalesce_prefix)
    also have "coalesce (?b1\<lparr>isFree := True\<rparr> # ?nb # post) = coalesce (b # post)"
      using fit True by (simp add: isFree_update_id)
    also have "\<dots> = b # post" using nf1(2) by (rule coalesce_naf_id)
    finally have co: "coalesce (mark_free a (memoryBlocks s1)) = memoryBlocks s"
      unfolding mf dec .
    from so1 have d: "distinct (map address (mark_free a (memoryBlocks s1)))"
      by (simp add: mark_free_address sorted_wrt_less_distinct)
    from so1 have nin: "address b + n \<notin> address ` set (pre @ b # post)"
      unfolding bl using sorted_wrt_less_distinct[OF so1] by (auto simp: bl)
    have "snd (merge_loop (mark_free a (memoryBlocks s1)) (addressMap s1)) = addressMap s"
      unfolding merge_loop_snd[OF d] co mark_free_set
      unfolding bl dec mp s1 using nin
      by (auto simp: fun_eq_iff keys_of_def)
    with co have "mergeFreeBlocks (s1\<lparr>memoryBlocks := mark_free a (memoryBlocks s1)\<rparr>) = s"
      unfolding mergeFreeBlocks_def by (simp add: case_prod_beta merge_loop_fst s1)
    with look show ?thesis by (simp add: deallocate_def)
  next
    case False
    let ?b1 = "b\<lparr>isFree := False\<rparr>"
    have "allocate n s = (Inr (address b), s\<lparr>memoryBlocks := pre @ ?b1 # post\<rparr>)"
      using allocate_Some[OF f n] False by (simp add: b_def pre_def post_def)
    then have "snd (allocate n s) = s\<lparr>memoryBlocks := pre @ ?b1 # post\<rparr>"
      by (simp only: snd_conv)
    moreover from al have "snd (allocate n s) = s1" by simp
    ultimately have s1: "s1 = s\<lparr>memoryBlocks := pre @ ?b1 # post\<rparr>"
      by (simp only:)
    then have bl: "memoryBlocks s1 = pre @ ?b1 # post" by simp
    have look: "addressMap s1 a = Some a" unfolding mp1 bl a by (simp add: keys_of_def)
    have mf: "mark_free a (memoryBlocks s1) = memoryBlocks s"
      unfolding bl a dec using mark_free_at[of ?b1 pre post] notin fit
      by (simp add: isFree_update_id)
    have "merge_loop (memoryBlocks s) (addressMap s) = (memoryBlocks s, addressMap s)"
      using nf dec by (simp add: merge_loop_naf_id)
    then have "mergeFreeBlocks (s1\<lparr>memoryBlocks := mark_free a (memoryBlocks s1)\<rparr>) = s"
      unfolding mergeFreeBlocks_def mf by (simp add: s1)
    with look show ?thesis by (simp add: deallocate_def)
  qed
qed

lemma freed_once_blocks:
  "memoryBlocks freed_once =
     [\<lparr>address = 0, bsize = 100, isFree = True\<rparr>,
      \<lparr>address = 100, bsize = 200, isFree = False\<rparr>,
      \<lparr>address = 300, bsize = 724, isFree = True\<rparr>]"
  by (simp add: freed_once_def MemoryAllocator_init_def allocate_def findSuitableBlock_def
      splitBlock_def deallocate_def mergeFreeBlocks_def Let_def)

lemma freed_once_strategy: "strategy freed_once = FIRST_FIT"
  by (simp add: freed_once_def MemoryAllocator_init_def allocate_def findSuitableBlock_def
      splitBlock_def deallocate_def mergeFreeBlocks_def Let_def)

lemma reachable_freed_once: "reachable freed_once"
  unfolding freed_once_def
  by (intro reachable.intros) (simp_all add: SIZE_MAX_def)

section \<open>The claims about the arena\<close>

text \<open>
  C1, as the code has it. \<open>deallocate\<close> looks the address up in \<open>addressMap\<close> and
  tests nothing else. In every reachable state the keys of that map are the base
  addresses of all blocks of the list, free or allocated. So the call fails with
  \<open>InvalidAddress\<close>, leaving the state unchanged, when the address is the base of no
  block, and it returns normally when the address is the base of a block, whether that
  block is allocated or already free.
\<close>

theorem deallocate_fails_iff_no_block_base:
  "reachable s \<Longrightarrow>
     (a \<notin> address ` set (memoryBlocks s) \<longrightarrow> deallocate a s = (Inl InvalidAddress, s)) \<and>
     (a \<in> address ` set (memoryBlocks s) \<longrightarrow> fst (deallocate a s) = Inr ())"
proof -
  assume "reachable s"
  then have "addressMap s = keys_of (address ` set (memoryBlocks s))"
    by (simp add: reachable_arena_inv arena_inv_map)
  then show ?thesis by (simp add: deallocate_def keys_of_def)
qed

text \<open>
  The same at a concrete reachable state: address 7 is the base of no block and is
  rejected, address 100 is the base of the allocated block and is accepted.
\<close>

theorem deallocate_fails_iff_no_block_base_witness:
  "reachable freed_once \<and>
     deallocate 7 freed_once = (Inl InvalidAddress, freed_once) \<and>
     fst (deallocate 100 freed_once) = Inr ()"
proof -
  have r: "reachable freed_once" by (rule reachable_freed_once)
  from deallocate_fails_iff_no_block_base[OF r, of 7]
    deallocate_fails_iff_no_block_base[OF r, of 100] r
  show ?thesis by (simp add: freed_once_blocks)
qed

text \<open>
  C1 as stated fails: after \<open>allocate(100)\<close>, \<open>allocate(200)\<close>, \<open>deallocate(0)\<close> the
  block at address 0 is free, and a second \<open>deallocate(0)\<close> returns normally instead of
  failing with \<open>InvalidAddress\<close>.
\<close>

theorem deallocate_freed_address_accepted:
  "memoryBlocks freed_once =
     [\<lparr>address = 0, bsize = 100, isFree = True\<rparr>,
      \<lparr>address = 100, bsize = 200, isFree = False\<rparr>,
      \<lparr>address = 300, bsize = 724, isFree = True\<rparr>] \<and>
   deallocate 0 freed_once = (Inr (), freed_once)"
  by (simp add: freed_once_def MemoryAllocator_init_def allocate_def findSuitableBlock_def
      splitBlock_def deallocate_def mergeFreeBlocks_def Let_def map_erase_def)

text \<open>
  C2. In every state the constructor and the public operations produce, no two
  neighbouring blocks are both free, and the same holds for the state after one more
  \<open>allocate\<close>, \<open>deallocate\<close> or \<open>setAllocationStrategy\<close>. When \<open>allocate\<close> splits
  the block at position \<open>i\<close>, the free remainder stands at position \<open>i + 1\<close> between
  the block just allocated and a block that is not free (or the end of the list). The
  coalescing pass of \<open>deallocate\<close> establishes the invariant from any list of blocks.
\<close>

theorem no_adjacent_free_after_every_operation:
  "reachable s \<Longrightarrow>
     no_adjacent_free (memoryBlocks s) \<and>
     no_adjacent_free (memoryBlocks (snd (allocate n s))) \<and>
     no_adjacent_free (memoryBlocks (snd (deallocate a s))) \<and>
     no_adjacent_free (memoryBlocks (setAllocationStrategy st s)) \<and>
     no_adjacent_free (memoryBlocks (mergeFreeBlocks t)) \<and>
     (findSuitableBlock n s = Some i \<and> n \<noteq> 0 \<and> n < bsize (memoryBlocks s ! i) \<longrightarrow>
        isFree (memoryBlocks (snd (allocate n s)) ! Suc i) \<and>
        \<not> isFree (memoryBlocks (snd (allocate n s)) ! i) \<and>
        (Suc (Suc i) < length (memoryBlocks (snd (allocate n s))) \<longrightarrow>
           \<not> isFree (memoryBlocks (snd (allocate n s)) ! Suc (Suc i))))"
proof -
  assume "reachable s"
  then have inv: "arena_inv s" by (rule reachable_arena_inv)
  have split: "isFree (memoryBlocks (snd (allocate n s)) ! Suc i) \<and>
        \<not> isFree (memoryBlocks (snd (allocate n s)) ! i) \<and>
        (Suc (Suc i) < length (memoryBlocks (snd (allocate n s))) \<longrightarrow>
           \<not> isFree (memoryBlocks (snd (allocate n s)) ! Suc (Suc i)))"
    if "findSuitableBlock n s = Some i" "n \<noteq> 0" "n < bsize (memoryBlocks s ! i)"
    using split_remainder_neighbours[OF inv that] by simp
  from inv arena_inv_allocate[OF inv, of n] arena_inv_deallocate[OF inv, of a]
    arena_inv_strategy[OF inv, of st] split
  show ?thesis by (simp add: arena_inv_def mergeFreeBlocks_fields coalesce_naf)
qed

text \<open>
  At the arena with a free block of 100 bytes at address 0: \<open>allocate(50)\<close> splits it,
  and the remainder at position 1 has the new block before it and the allocated block
  of address 100 behind it.
\<close>

theorem no_adjacent_free_after_every_operation_witness:
  "reachable freed_once \<and>
     findSuitableBlock 50 freed_once = Some 0 \<and>
     50 < bsize (memoryBlocks freed_once ! 0) \<and>
     no_adjacent_free (memoryBlocks freed_once) \<and>
     no_adjacent_free (memoryBlocks (snd (allocate 50 freed_once))) \<and>
     no_adjacent_free (memoryBlocks (snd (deallocate 100 freed_once))) \<and>
     no_adjacent_free (memoryBlocks (setAllocationStrategy BEST_FIT freed_once)) \<and>
     no_adjacent_free (memoryBlocks (mergeFreeBlocks freed_once)) \<and>
     isFree (memoryBlocks (snd (allocate 50 freed_once)) ! Suc 0) \<and>
     \<not> isFree (memoryBlocks (snd (allocate 50 freed_once)) ! 0) \<and>
     \<not> isFree (memoryBlocks (snd (allocate 50 freed_once)) ! Suc (Suc 0))"
proof -
  have f: "findSuitableBlock 50 freed_once = Some 0"
    by (simp add: findSuitableBlock_def freed_once_blocks freed_once_strategy)
  have b: "50 < bsize (memoryBlocks freed_once ! 0)" by (simp add: freed_once_blocks)
  have l: "Suc (Suc 0) < length (memoryBlocks (snd (allocate 50 freed_once)))"
    by (simp add: allocate_def splitBlock_def Let_def f freed_once_blocks)
  from no_adjacent_free_after_every_operation[OF reachable_freed_once,
      of 50 100 BEST_FIT freed_once 0] reachable_freed_once f b l
  show ?thesis by simp
qed

text \<open>
  C3 fails on the code. Under WORST\_FIT the search starts with \<open>largestDifference = 0\<close>
  and takes a block only when its remainder is strictly larger, so a block that fits
  exactly is never chosen: on a fresh arena of 100 bytes \<open>allocate(100)\<close> throws "No
  suitable memory block found", although the only block is free and large enough. The
  other two policies serve the same request at address 0.
\<close>

theorem worst_fit_rejects_exact_fit:
  "fits 100 (hd (memoryBlocks (MemoryAllocator_init 100 WORST_FIT))) \<and>
   findSuitableBlock 100 (MemoryAllocator_init 100 WORST_FIT) = None \<and>
   allocate 100 (MemoryAllocator_init 100 WORST_FIT) =
     (Inl NoFit, MemoryAllocator_init 100 WORST_FIT) \<and>
   fst (allocate 100 (MemoryAllocator_init 100 BEST_FIT)) = Inr 0 \<and>
   fst (allocate 100 (MemoryAllocator_init 100 FIRST_FIT)) = Inr 0"
  by (simp add: MemoryAllocator_init_def allocate_def findSuitableBlock_def Let_def
      SIZE_MAX_def fits_def)

text \<open>
  C4. From a state that satisfies the block invariants, when \<open>allocate(n)\<close> succeeds
  with address \<open>a\<close>, \<open>deallocate(a)\<close> succeeds, the total free memory is what it was
  before the allocate, and the fragmentation ratio is at most what it was before.
\<close>

theorem allocate_deallocate_round_trip:
  assumes "arena_inv s" and "allocate n s = (Inr a, s1)"
  shows "fst (deallocate a s1) = Inr () \<and>
         getTotalFreeMemory (snd (deallocate a s1)) = getTotalFreeMemory s \<and>
         double_le (getFragmentationRatio (snd (deallocate a s1))) (getFragmentationRatio s)"
proof -
  from round_trip_state[OF assms] have "deallocate a s1 = (Inr (), s)" .
  then show ?thesis
    by (simp add: double_le_def fragmentation_ratio_value)
qed

theorem allocate_deallocate_round_trip_witness:
  "arena_inv freed_once \<and>
   allocate 50 freed_once = (Inr 0, snd (allocate 50 freed_once)) \<and>
   fst (deallocate 0 (snd (allocate 50 freed_once))) = Inr () \<and>
   getTotalFreeMemory (snd (deallocate 0 (snd (allocate 50 freed_once)))) =
     getTotalFreeMemory freed_once \<and>
   double_le (getFragmentationRatio (snd (deallocate 0 (snd (allocate 50 freed_once)))))
     (getFragmentationRatio freed_once)"
proof -
  have i: "arena_inv freed_once" using reachable_freed_once by (rule reachable_arena_inv)
  have "fst (allocate 50 freed_once) = Inr 0"
    by (simp add: allocate_def findSuitableBlock_def Let_def freed_once_blocks
        freed_once_strategy)
  then have a: "allocate 50 freed_once = (Inr 0, snd (allocate 50 freed_once))"
    by (metis prod.collapse)
  from allocate_deallocate_round_trip[OF i a] i a show ?thesis by simp
qed

text \<open>
  C10. \<open>getFragmentationRatio\<close> always returns a finite number: 0 when no memory is
  free, and otherwise 1 minus the largest free block over the total free memory, which
  lies between 0 and 1. The division is only reached with a divisor that is not zero.
\<close>

theorem fragmentation_ratio_guarded:
  "getFragmentationRatio s =
     Some (if getTotalFreeMemory s = 0 then 0
           else 1 - real (getLargestFreeBlock s) / real (getTotalFreeMemory s)) \<and>
   0 \<le> (if getTotalFreeMemory s = 0 then 0
         else 1 - real (getLargestFreeBlock s) / real (getTotalFreeMemory s)) \<and>
   (if getTotalFreeMemory s = 0 then 0
    else 1 - real (getLargestFreeBlock s) / real (getTotalFreeMemory s)) \<le> 1"
proof (cases "getTotalFreeMemory s = 0")
  case True
  then show ?thesis by (simp add: getFragmentationRatio_def)
next
  case False
  with largest_le_total_free[of s]
  have "real (getLargestFreeBlock s) / real (getTotalFreeMemory s) \<le> 1" by simp
  moreover have "0 \<le> real (getLargestFreeBlock s) / real (getTotalFreeMemory s)" by simp
  ultimately show ?thesis using False
    by (simp add: getFragmentationRatio_def double_div_def Let_def)
qed


section \<open>The claim about the profiler\<close>

lemma recordDeallocation_loop_first:
  assumes "\<forall>x\<in>set pre. \<not> (rec_address x = addr \<and> isActive x)"
    and "rec_address r = addr" and "isActive r"
  shows "recordDeallocation_loop now addr (pre @ r # post) =
           (pre @ r\<lparr>isActive := False, deallocationTime := now\<rparr> # post,
            Some (r\<lparr>isActive := False, deallocationTime := now\<rparr>))"
  using assms by (induction pre) (auto simp: Let_def)

lemma recordDeallocation_loop_none:
  assumes "\<forall>x\<in>set h. \<not> (rec_address x = addr \<and> isActive x)"
  shows "recordDeallocation_loop now addr h = (h, None)"
  using assms by (induction h) auto

text \<open>When no record is active with the address, the profiler is left as it is.\<close>

lemma recordDeallocation_no_match:
  assumes "\<forall>x\<in>set (allocationHistory p). \<not> (rec_address x = addr \<and> isActive x)"
  shows "MemoryProfiler_recordDeallocation now addr p = p"
  using recordDeallocation_loop_none[OF assms, of now]
  by (simp add: MemoryProfiler_recordDeallocation_def)

text \<open>
  C7, as the code has it. \<open>recordDeallocation(address)\<close> changes the oldest active
  record with that address, the first one in the order of the history: it sets its
  deallocation time, makes it inactive and appends its lifetime in milliseconds to the
  lifetime statistics of its size. All other records stay as they are, also later active
  records with the same address.
\<close>

theorem recordDeallocation_changes_oldest_active:
  assumes "allocationHistory p = pre @ r # post"
    and "\<forall>x\<in>set pre. \<not> (rec_address x = addr \<and> isActive x)"
    and "rec_address r = addr" and "isActive r"
  shows "MemoryProfiler_recordDeallocation now addr p =
           p\<lparr>allocationHistory := pre @ r\<lparr>isActive := False, deallocationTime := now\<rparr> # post,
             lifetimeDistribution :=
               map_put (rec_size r)
                 ((case map_of (lifetimeDistribution p) (rec_size r) of
                     None \<Rightarrow> [] | Some ls \<Rightarrow> ls) @
                  [real_of_int (to_milliseconds (now - allocationTime r))])
                 (lifetimeDistribution p)\<rparr>"
  using recordDeallocation_loop_first[OF assms(2,3,4), of now post] assms(1)
  by (simp add: MemoryProfiler_recordDeallocation_def updateLifetimeStats_def Let_def)

theorem recordDeallocation_changes_oldest_active_witness:
  "MemoryProfiler_recordDeallocation 9000000 24 three_records =
     three_records
       \<lparr>allocationHistory :=
          [\<lparr>rec_size = 8, rec_address = 24, allocationTime = 1000000,
            deallocationTime = 2000000, isActive = False, poolId = 0\<rparr>,
           \<lparr>rec_size = 8, rec_address = 24, allocationTime = 3000000,
            deallocationTime = 9000000, isActive = False, poolId = 0\<rparr>,
           \<lparr>rec_size = 16, rec_address = 24, allocationTime = 4000000, deallocationTime = 0,
            isActive = True, poolId = 0\<rparr>],
        lifetimeDistribution := [(8, [1, 6])]\<rparr>"
proof -
  let ?r0 = "\<lparr>rec_size = 8, rec_address = 24, allocationTime = 1000000,
            deallocationTime = 2000000, isActive = False, poolId = 0\<rparr>"
  let ?r1 = "\<lparr>rec_size = 8, rec_address = 24, allocationTime = 3000000,
            deallocationTime = 0, isActive = True, poolId = 0\<rparr>"
  let ?r2 = "\<lparr>rec_size = 16, rec_address = 24, allocationTime = 4000000,
            deallocationTime = 0, isActive = True, poolId = 0\<rparr>"
  have h: "allocationHistory three_records = [?r0] @ ?r1 # [?r2]"
    by (simp add: three_records_def)
  have n: "\<forall>x\<in>set [?r0]. \<not> (rec_address x = 24 \<and> isActive x)" by simp
  have a: "rec_address ?r1 = 24" and b: "isActive ?r1" by simp_all
  from recordDeallocation_changes_oldest_active[OF h n a b, of 9000000]
  show ?thesis
    by (simp add: three_records_def to_milliseconds_def trunc_div_def)
qed

text \<open>
  C7 as stated fails: of the two active records with address 24 the older one is
  changed, and the newest record is still active afterwards.
\<close>

theorem recordDeallocation_leaves_newest_active:
  "allocationHistory (MemoryProfiler_recordDeallocation 9000000 24 three_records) =
     [\<lparr>rec_size = 8, rec_address = 24, allocationTime = 1000000,
       deallocationTime = 2000000, isActive = False, poolId = 0\<rparr>,
      \<lparr>rec_size = 8, rec_address = 24, allocationTime = 3000000,
       deallocationTime = 9000000, isActive = False, poolId = 0\<rparr>,
      \<lparr>rec_size = 16, rec_address = 24, allocationTime = 4000000, deallocationTime = 0,
       isActive = True, poolId = 0\<rparr>] \<and>
   lifetimeDistribution (MemoryProfiler_recordDeallocation 9000000 24 three_records) =
     [(8, [1, 6])]"
  by (simp add: three_records_def MemoryProfiler_recordDeallocation_def updateLifetimeStats_def
      Let_def to_milliseconds_def trunc_div_def)

section \<open>The claims about the controller\<close>

lemma upt_2: "[0..<2] = [0, Suc 0]"
  by (simp add: upt_rec)

lemmas run_defs =
  AdaptiveMemoryAllocator_allocate_def allocateFromPool_def
  MemoryProfiler_recordAllocation_def updateSizeFrequency_def Let_def
  MemoryProfiler_init_def shouldCreatePool_def
  shouldCreatePoolForSize_def analyzePatterns_def allocate_fallback_def allocate_def
  findSuitableBlock_def splitBlock_def wrap_def sort_by_count_def
  AdaptiveMemoryAllocator_deallocate_def deallocate_def mergeFreeBlocks_def
  updatePoolUtilization_def double_div_def double_less_def map_erase_def
  MemoryLeakDetector_recordDeallocation_def MemoryLeakDetector_recordAllocation_def
  MemoryLeakDetector_init_def

lemma pool_ready_eq:
  "pool_ready =
     \<lparr>arena = \<lparr>memoryBlocks = [\<lparr>address = 0, bsize = 16, isFree = False\<rparr>,
                                \<lparr>address = 16, bsize = 16, isFree = False\<rparr>,
                                \<lparr>address = 32, bsize = 32, isFree = True\<rparr>],
               addressMap = [0 \<mapsto> 0, 16 \<mapsto> 16, 32 \<mapsto> 32],
               totalMemorySize = 64, strategy = FIRST_FIT\<rparr>,
      profiler = MemoryProfiler_init,
      adaptiveMode = True,
      memoryPools = [\<lparr>blockSize = 8, freeBlocks = [16, 24], totalBlocks = 2, usedBlocks = 0\<rparr>],
      params = \<lparr>fragmentationThreshold = 3 / 10, poolCreationThreshold = 100,
                adaptationInterval = 1000, operationsSinceLastAdaptation = 0\<rparr>,
      leakDetector = MemoryLeakDetector_init\<rparr>"
  by (simp add: pool_ready_def createMemoryPool_def AdaptiveMemoryAllocator_init_def
      MemoryAllocator_init_def allocate_def findSuitableBlock_def splitBlock_def Let_def
      upt_2 wrap_def)

lemma pool_exhausted_pools:
  "memoryPools pool_exhausted =
     [\<lparr>blockSize = 8, freeBlocks = [], totalBlocks = 2, usedBlocks = 2\<rparr>]"
  by (simp add: pool_exhausted_def pool_ready_eq run_defs)

lemma pool_exhausted_arena: "arena pool_exhausted = arena pool_ready"
  by (simp add: pool_exhausted_def run_defs pool_ready_eq)

lemma pool_flagged_pools:
  "memoryPools pool_flagged =
     [\<lparr>blockSize = 8, freeBlocks = [16], totalBlocks = 0, usedBlocks = 1\<rparr>]"
  by (simp add: pool_flagged_def pool_ready_eq run_defs)

lemma pool_flagged_lookup: "addressMap (arena pool_flagged) 24 = None"
  by (simp add: pool_flagged_def pool_ready_eq run_defs)

lemma one_allocation_leak_history:
  "leakHistory (leakDetector one_allocation) =
     [(0, \<lparr>info_size = 64, info_allocationTime = 1000, callStack = captureCallStack,
           lineNumber = 60, fileName = ''AdaptiveMemoryAllocator.cpp''\<rparr>)]"
  by (simp add: one_allocation_def AdaptiveMemoryAllocator_init_def MemoryAllocator_init_def
      run_defs)

text \<open>
  C5 fails on the code. \<open>deallocate\<close> takes \<open>pool.freeBlocks.front()\<close> for the start
  of the pool's range; the address at which the pool was carved is not stored. (1) When
  all slots of a pool are in use, the free list is empty: \<open>deallocate(24)\<close> of a live
  slot of the pool carved at 16 reads \<open>front()\<close> of an empty vector instead of being
  routed to the pool. (2) When the free list has been empty and slot 24 is its first
  entry, the range starts at 24: \<open>deallocate(16)\<close>, the other live slot, goes to the
  arena, which frees the whole block of the pool. (3) When the pool has been marked by
  \<open>totalBlocks = 0\<close>, its range is empty: \<open>deallocate(24)\<close> of its live slot goes to the
  arena and fails with \<open>InvalidAddress\<close>. In all three cases the address lies in
  \<open>[16, 16 + 2 * 8)\<close>.
\<close>

theorem pool_range_not_from_carved_base:
  "memoryPools pool_exhausted =
     [\<lparr>blockSize = 8, freeBlocks = [], totalBlocks = 2, usedBlocks = 2\<rparr>] \<and>
   fst (AdaptiveMemoryAllocator_deallocate 3000 24 pool_exhausted) =
     Inl (UndefinedBehaviour ''front() of an empty vector'') \<and>
   fst (AdaptiveMemoryAllocator_deallocate 4000 16 pool_refilled) = Inr () \<and>
   memoryPools (snd (AdaptiveMemoryAllocator_deallocate 4000 16 pool_refilled)) =
     [\<lparr>blockSize = 8, freeBlocks = [24], totalBlocks = 2, usedBlocks = 1\<rparr>] \<and>
   memoryBlocks (arena (snd (AdaptiveMemoryAllocator_deallocate 4000 16 pool_refilled))) =
     [\<lparr>address = 0, bsize = 16, isFree = False\<rparr>, \<lparr>address = 16, bsize = 48, isFree = True\<rparr>] \<and>
   memoryPools pool_flagged =
     [\<lparr>blockSize = 8, freeBlocks = [16], totalBlocks = 0, usedBlocks = 1\<rparr>] \<and>
   fst (AdaptiveMemoryAllocator_deallocate 4000 24 pool_flagged) = Inl InvalidAddress"
proof -
  have 1: "fst (AdaptiveMemoryAllocator_deallocate 3000 24 pool_exhausted) =
      Inl (UndefinedBehaviour ''front() of an empty vector'')"
    by (simp add: pool_exhausted_pools AdaptiveMemoryAllocator_deallocate_def Let_def)
  have 2: "fst (AdaptiveMemoryAllocator_deallocate 4000 16 pool_refilled) = Inr () \<and>
    memoryPools (snd (AdaptiveMemoryAllocator_deallocate 4000 16 pool_refilled)) =
      [\<lparr>blockSize = 8, freeBlocks = [24], totalBlocks = 2, usedBlocks = 1\<rparr>] \<and>
    memoryBlocks (arena (snd (AdaptiveMemoryAllocator_deallocate 4000 16 pool_refilled))) =
      [\<lparr>address = 0, bsize = 16, isFree = False\<rparr>, \<lparr>address = 16, bsize = 48, isFree = True\<rparr>]"
    by (simp add: pool_refilled_def pool_exhausted_arena pool_ready_eq
        AdaptiveMemoryAllocator_deallocate_def Let_def wrap_def deallocate_def
        mergeFreeBlocks_def updatePoolUtilization_def double_div_def double_less_def)
  have 3: "fst (AdaptiveMemoryAllocator_deallocate 4000 24 pool_flagged) = Inl InvalidAddress"
    using pool_flagged_pools pool_flagged_lookup
    by (simp add: AdaptiveMemoryAllocator_deallocate_def Let_def wrap_def deallocate_def)
  from 1 2 3 pool_exhausted_pools pool_flagged_pools show ?thesis by simp
qed

text \<open>
  C6 fails on the code. In adaptive mode \<open>allocate(8)\<close> on the controller with the
  pool takes slot 24 from the pool, records it in the profiler and returns; the leak
  tracker is not touched and stays empty. The path through the arena does call
  \<open>RECORD_ALLOCATION\<close>: after one allocation served by the arena the tracker holds the
  entry for address 0.
\<close>

theorem pool_allocation_not_in_leak_tracker:
  "AdaptiveMemoryAllocator_allocate 1000 8 pool_ready =
     (Inr 24,
      pool_ready\<lparr>memoryPools :=
                   [\<lparr>blockSize = 8, freeBlocks = [16], totalBlocks = 2, usedBlocks = 1\<rparr>],
                 profiler :=
                   \<lparr>allocationHistory =
                      [\<lparr>rec_size = 8, rec_address = 24, allocationTime = 1000,
                        deallocationTime = 0, isActive = True, poolId = 0\<rparr>],
                    lifetimeDistribution = [], sizeFrequency = [(8, 1)]\<rparr>\<rparr>) \<and>
   leakDetector (snd (AdaptiveMemoryAllocator_allocate 1000 8 pool_ready)) =
     MemoryLeakDetector_init \<and>
   leakHistory (leakDetector one_allocation) =
     [(0, \<lparr>info_size = 64, info_allocationTime = 1000, callStack = captureCallStack,
           lineNumber = 60, fileName = ''AdaptiveMemoryAllocator.cpp''\<rparr>)]"
  by (simp add: pool_ready_eq run_defs one_allocation_leak_history)

text \<open>
  Without adaptive mode a request of size 0 reaches \<open>MemoryAllocator::allocate\<close>, which
  throws, and nothing has changed.
\<close>

lemma allocate_zero_adaptive_off:
  "\<not> adaptiveMode c \<Longrightarrow> AdaptiveMemoryAllocator_allocate now 0 c = (Inl ZeroSize, c)"
  by (cases c) (simp add: AdaptiveMemoryAllocator_allocate_def allocate_fallback_def allocate_def)

text \<open>
  C8 fails on the code. In adaptive mode \<open>allocate(0)\<close> on the controller with the pool
  is served from the pool: \<open>allocateFromPool\<close> has no test for size 0, every pool is
  large enough, and the call returns slot 24, takes the slot and records an allocation of
  size 0 in the profiler.
\<close>

theorem zero_size_served_from_pool:
  "AdaptiveMemoryAllocator_allocate 1000 0 pool_ready =
     (Inr 24,
      pool_ready\<lparr>memoryPools :=
                   [\<lparr>blockSize = 8, freeBlocks = [16], totalBlocks = 2, usedBlocks = 1\<rparr>],
                 profiler :=
                   \<lparr>allocationHistory =
                      [\<lparr>rec_size = 0, rec_address = 24, allocationTime = 1000,
                        deallocationTime = 0, isActive = True, poolId = 0\<rparr>],
                    lifetimeDistribution = [], sizeFrequency = [(0, 1)]\<rparr>\<rparr>) \<and>
   AdaptiveMemoryAllocator_allocate 1000 0 (pool_ready\<lparr>adaptiveMode := False\<rparr>) =
     (Inl ZeroSize, pool_ready\<lparr>adaptiveMode := False\<rparr>)"
  by (simp add: pool_ready_eq run_defs)







subsection \<open>The controller writes to the profiler through the two recorders only\<close>

lemma createMemoryPool_profiler:
  "profiler (snd (createMemoryPool bs bc c)) = profiler c"
  by (simp add: createMemoryPool_def Let_def split: prod.splits sum.splits)

lemma optimizePools_loop_profiler:
  "profiler (snd (optimizePools_loop sizes conf c)) = profiler c"
proof (induction sizes arbitrary: c)
  case Nil
  show ?case by simp
next
  case (Cons sz sizes)
  show ?case
  proof (cases "\<exists>pool\<in>set (memoryPools c). blockSize pool = sz")
    case True
    with Cons show ?thesis by simp
  next
    case False
    obtain r c' where cr: "createMemoryPool sz (max 5 (nat \<lfloor>conf * 20\<rfloor>)) c = (r, c')"
      by (cases "createMemoryPool sz (max 5 (nat \<lfloor>conf * 20\<rfloor>)) c")
    then have p: "profiler c' = profiler c"
      using createMemoryPool_profiler[of sz "max 5 (nat \<lfloor>conf * 20\<rfloor>)" c] by simp
    show ?thesis
    proof (cases r)
      case (Inl e)
      with False cr p show ?thesis by (simp add: Let_def)
    next
      case (Inr u)
      with False cr p Cons[of c'] show ?thesis by (simp add: Let_def)
    qed
  qed
qed

lemma optimizePools_profiler: "profiler (snd (optimizePools c)) = profiler c"
  by (simp add: optimizePools_def cleanupUnusedPools_def Let_def optimizePools_loop_profiler)

lemma adjustParameters_profiler: "profiler (adjustParameters c) = profiler c"
  by (simp add: adjustParameters_def Let_def)

lemma adaptStrategy_profiler: "profiler (snd (adaptStrategy c)) = profiler c"
proof (cases "adaptiveMode c")
  case False
  then show ?thesis by (simp add: adaptStrategy_def)
next
  case True
  let ?c1 = "if double_greater (fragmentationRatio (getPerformanceMetrics (profiler c) (arena c)))
                 (fragmentationThreshold (params c))
             then c\<lparr>arena := setAllocationStrategy
                    (recommendedStrategy (predictNextAllocation (profiler c))) (arena c)\<rparr>
             else c"
  have p1: "profiler ?c1 = profiler c" by simp
  obtain r c2 where o: "optimizePools ?c1 = (r, c2)" by (cases "optimizePools ?c1")
  then have p2: "profiler c2 = profiler c"
    using optimizePools_profiler[of ?c1] p1 by simp
  show ?thesis
  proof (cases r)
    case (Inl e)
    with True o p2 show ?thesis by (simp add: adaptStrategy_def Let_def)
  next
    case (Inr u)
    with True o p2 show ?thesis
      by (simp add: adaptStrategy_def Let_def adjustParameters_profiler)
  qed
qed

lemma enableAdaptiveMode_profiler:
  "profiler (snd (enableAdaptiveMode enable c)) = profiler c"
  by (simp add: enableAdaptiveMode_def Let_def adaptStrategy_profiler)

lemma allocateFromPool_profiler: "profiler (snd (allocateFromPool sz c)) = profiler c"
  by (simp add: allocateFromPool_def split: prod.splits)

lemma tail_profiler:
  "profiler (snd t) = P \<Longrightarrow>
     profiler (snd (case t of (Inl e, c3) \<Rightarrow> (Inl e, c3)
                    | (Inr u, c3) \<Rightarrow> (Inr addr, c3\<lparr>leakDetector := d c3\<rparr>))) = P"
  by (auto split: prod.splits sum.splits)

lemma allocate_fallback_profiler:
  "profiler (snd (allocate_fallback now sz c)) = profiler c \<or>
   (\<exists>addr. profiler (snd (allocate_fallback now sz c)) =
      MemoryProfiler_recordAllocation now sz addr 0 (profiler c))"
proof (cases "allocate sz (arena c)")
  case (Pair r a')
  show ?thesis
  proof (cases r)
    case (Inl e)
    with Pair show ?thesis by (simp add: allocate_fallback_def)
  next
    case (Inr addr)
    have "profiler (snd (allocate_fallback now sz c)) =
        MemoryProfiler_recordAllocation now sz addr 0 (profiler c)"
      unfolding allocate_fallback_def Pair Inr Let_def
      by (simp only: prod.case sum.case, rule tail_profiler)
        (simp add: adaptStrategy_profiler)
    then show ?thesis by blast
  qed
qed

lemma controller_allocate_profiler:
  assumes "profiler_reachable (profiler c)" and "0 < now"
  shows "profiler_reachable (profiler (snd (AdaptiveMemoryAllocator_allocate now sz c)))"
proof -
  have fb: "profiler_reachable (profiler (snd (allocate_fallback now sz c')))"
    if "profiler c' = profiler c" for c'
    using allocate_fallback_profiler[of now sz c'] that assms
    by (auto intro: profiler_reachable.intros)
  have rec: "profiler_reachable (MemoryProfiler_recordAllocation now sz addr 0 (profiler c))"
    for addr using assms by (rule profiler_reachable.intros)
  show ?thesis
  proof (cases "adaptiveMode c")
    case False
    with fb[of c] show ?thesis by (simp add: AdaptiveMemoryAllocator_allocate_def)
  next
    case True
    obtain addr c1 where a1: "allocateFromPool sz c = (addr, c1)"
      by (cases "allocateFromPool sz c")
    then have p1: "profiler c1 = profiler c"
      using allocateFromPool_profiler[of sz c] by simp
    show ?thesis
    proof (cases "addr \<noteq> 0")
      case True
      with \<open>adaptiveMode c\<close> a1 p1 rec[of addr] show ?thesis
        by (simp add: AdaptiveMemoryAllocator_allocate_def)
    next
      case False
      note z = this
      show ?thesis
      proof (cases "shouldCreatePool sz c1")
        case False
        with \<open>adaptiveMode c\<close> a1 z fb[OF p1] show ?thesis
          by (simp add: AdaptiveMemoryAllocator_allocate_def)
      next
        case True
        obtain r c2 where cr: "createMemoryPool sz 10 c1 = (r, c2)"
          by (cases "createMemoryPool sz 10 c1")
        then have p2: "profiler c2 = profiler c"
          using createMemoryPool_profiler[of sz 10 c1] p1 by simp
        show ?thesis
        proof (cases r)
          case (Inl e)
          with \<open>adaptiveMode c\<close> a1 z True cr p2 assms(1) show ?thesis
            by (simp add: AdaptiveMemoryAllocator_allocate_def)
        next
          case (Inr u)
          obtain addr2 c3 where a2: "allocateFromPool sz c2 = (addr2, c3)"
            by (cases "allocateFromPool sz c2")
          then have p3: "profiler c3 = profiler c"
            using allocateFromPool_profiler[of sz c2] p2 by simp
          show ?thesis
          proof (cases "addr2 \<noteq> 0")
            case True
            with \<open>adaptiveMode c\<close> a1 z \<open>shouldCreatePool sz c1\<close> cr Inr a2 p3 rec[of addr2]
            show ?thesis by (simp add: AdaptiveMemoryAllocator_allocate_def)
          next
            case False
            with \<open>adaptiveMode c\<close> a1 z \<open>shouldCreatePool sz c1\<close> cr Inr a2 fb[OF p3]
            show ?thesis by (simp add: AdaptiveMemoryAllocator_allocate_def)
          qed
        qed
      qed
    qed
  qed
qed

lemma updatePoolUtilization_profiler: "profiler (updatePoolUtilization c) = profiler c"
  by (simp add: updatePoolUtilization_def)

lemma controller_deallocate_profiler:
  assumes "profiler_reachable (profiler c)" and "0 < now"
  shows "profiler_reachable (profiler (snd (AdaptiveMemoryAllocator_deallocate now addr c)))"
proof -
  have rec: "profiler_reachable (MemoryProfiler_recordDeallocation now addr (profiler c))"
    using assms by (rule profiler_reachable.intros)
  show ?thesis
    using assms(1) rec
    by (auto simp: AdaptiveMemoryAllocator_deallocate_def Let_def
        updatePoolUtilization_profiler split: sum.splits prod.splits bool.splits)
qed

lemma controller_reachable_profiler:
  "controller_reachable c \<Longrightarrow> profiler_reachable (profiler c)"
proof (induction rule: controller_reachable.induct)
  case (ctl_init totalSize detector)
  show ?case by (simp add: AdaptiveMemoryAllocator_init_def profiler_reachable.intros)
next
  case (ctl_allocate c now sz)
  then show ?case by (intro controller_allocate_profiler)
next
  case (ctl_deallocate c now addr)
  then show ?case by (intro controller_deallocate_profiler)
qed (simp_all add: enableAdaptiveMode_profiler adjustParameters_profiler
    createMemoryPool_profiler optimizePools_profiler)





end
